(* ===== verification/Prelude.thy ===== *)
theory Prelude
  imports Main "HOL-Library.Word" "HOL-Library.Char_ord" "HOL-Library.List_Lexorder"
begin

text \<open>
  Generic definitions and lemmas the components share: Go strings as byte lists,
  positional numerals, sorting by a given comparison, and paging through a sorted list.
  Nothing here is about the users service itself.
\<close>

named_theorems digit_simps \<open>facts on positional numerals\<close>

section \<open>Go values\<close>

text \<open>
  A Go string is a sequence of bytes, and an Isabelle \<^typ>\<open>char\<close> is a byte, so
  \<^typ>\<open>string\<close> is the type of Go strings and \<^const>\<open>length\<close> is \<open>len\<close>. A rune is a
  natural number. \<open>uuid.UUID\<close> is an array of sixteen bytes compared as one big-endian
  number by PostgreSQL, hence \<open>128 word\<close>. Instants are integers (nanoseconds since the
  epoch), and so are durations.
\<close>

type_synonym uuid = "128 word"
type_synonym time = int
type_synonym rune = nat
type_synonym int32 = "32 word"

section \<open>Positional numerals\<close>

text \<open>Digits of a number, least significant first; the empty list for zero.\<close>

fun to_digits :: "nat \<Rightarrow> nat \<Rightarrow> nat list" where
  "to_digits b n = (if n = 0 \<or> b < 2 then [] else n mod b # to_digits b (n div b))"

declare to_digits.simps [simp del]

fun of_digits :: "nat \<Rightarrow> nat list \<Rightarrow> nat" where
  "of_digits b [] = 0"
| "of_digits b (d # ds) = d + b * of_digits b ds"

lemma to_digits_0 [simp]: "to_digits b 0 = []"
  by (simp add: to_digits.simps)

lemma to_digits_step:
  "0 < n \<Longrightarrow> 2 \<le> b \<Longrightarrow> to_digits b n = n mod b # to_digits b (n div b)"
  by (subst to_digits.simps) simp

lemma of_digits_to_digits [simp]: "2 \<le> b \<Longrightarrow> of_digits b (to_digits b n) = n"
proof (induction b n rule: to_digits.induct)
  case (1 b n)
  then show ?case by (cases "n = 0") (simp_all add: to_digits_step)
qed

lemma to_digits_less: "d \<in> set (to_digits b n) \<Longrightarrow> d < b"
proof (induction b n rule: to_digits.induct)
  case (1 b n)
  then show ?case
    by (subst (asm) to_digits.simps) (auto split: if_splits)
qed

lemma to_digits_inj: "2 \<le> b \<Longrightarrow> to_digits b m = to_digits b n \<Longrightarrow> m = n"
  by (metis of_digits_to_digits)

lemma length_to_digits: "2 \<le> b \<Longrightarrow> n < b ^ k \<Longrightarrow> length (to_digits b n) \<le> k"
proof (induction k arbitrary: n)
  case 0
  then show ?case by simp
next
  case (Suc k)
  show ?case
  proof (cases "n = 0")
    case False
    have "n div b < b ^ k"
      using Suc.prems by (simp add: less_mult_imp_div_less mult.commute)
    with Suc.IH [of "n div b"] Suc.prems(1) have "length (to_digits b (n div b)) \<le> k"
      by simp
    with False Suc.prems(1) show ?thesis by (simp add: to_digits_step)
  qed simp
qed

lemma to_digits_eq_Nil: "2 \<le> b \<Longrightarrow> to_digits b n = [] \<longleftrightarrow> n = 0"
  by (cases "n = 0") (simp_all add: to_digits_step)

lemma of_digits_append: "of_digits b (xs @ ys) = of_digits b xs + b ^ length xs * of_digits b ys"
  by (induction xs) (auto simp: algebra_simps)

lemma of_digits_zeros [simp]: "of_digits b (replicate k 0) = 0"
  by (induction k) auto

lemma of_digits_less: "(\<forall>d \<in> set ds. d < b) \<Longrightarrow> of_digits b ds < b ^ length ds"
proof (induction ds)
  case (Cons d ds)
  then have IH: "of_digits b ds < b ^ length ds" and d: "d < b" by auto
  have "d + b * of_digits b ds < b + b * of_digits b ds" using d by simp
  also have "\<dots> = b * Suc (of_digits b ds)" by simp
  also have "\<dots> \<le> b * b ^ length ds"
    using IH by (intro mult_le_mono2) simp
  finally show ?case by simp
qed simp

text \<open>Equally many digits below the base and the same value: the same digits.\<close>

lemma of_digits_inj:
  "length xs = length ys \<Longrightarrow> \<forall>d \<in> set xs. d < b \<Longrightarrow> \<forall>d \<in> set ys. d < b
    \<Longrightarrow> of_digits b xs = of_digits b ys \<Longrightarrow> xs = ys"
proof (induction xs ys rule: list_induct2)
  case (Cons x xs y ys)
  then have eq: "x + b * of_digits b xs = y + b * of_digits b ys" and xy: "x < b" "y < b"
    by auto
  then have "x = y" by (metis mod_less mod_mult_self2)
  moreover from this eq xy have "of_digits b xs = of_digits b ys" by simp
  ultimately show ?case using Cons by simp
qed simp

lemmas digits_facts = of_digits_to_digits length_to_digits to_digits_less to_digits_eq_Nil

declare to_digits_step [digit_simps] to_digits_eq_Nil [digit_simps] of_digits_append [digit_simps]

section \<open>Formatting with Sprintf\<close>

text \<open>The verbs the source uses: \<open>%d\<close> of a non-negative integer.\<close>

definition digit_char :: "nat \<Rightarrow> char" where
  "digit_char d = ''0123456789'' ! d"

definition decimal :: "nat \<Rightarrow> string" where
  "decimal n = (if n = 0 then ''0'' else map digit_char (rev (to_digits 10 n)))"

lemma digit_char_0 [simp]: "digit_char 0 = CHR ''0''"
  by (simp add: digit_char_def)

lemma digit_char_in: "d < 10 \<Longrightarrow> digit_char d \<in> set ''0123456789''"
  unfolding digit_char_def by (rule nth_mem) simp

lemma digit_char_inj: "d < 10 \<Longrightarrow> e < 10 \<Longrightarrow> digit_char d = digit_char e \<Longrightarrow> d = e"
  unfolding digit_char_def by (subst (asm) nth_eq_iff_index_eq) simp_all

lemma decimal_not_Nil [simp]: "decimal n \<noteq> []"
  by (simp add: decimal_def to_digits_eq_Nil)

lemma decimal_chars: "c \<in> set (decimal n) \<Longrightarrow> c \<in> set ''0123456789''"
  by (auto simp only: decimal_def set_map set_rev split: if_splits
      dest!: to_digits_less digit_char_in) simp

lemma map_digit_char_inj:
  "\<forall>d \<in> set xs. d < 10 \<Longrightarrow> \<forall>d \<in> set ys. d < 10 \<Longrightarrow> map digit_char xs = map digit_char ys \<Longrightarrow> xs = ys"
  by (rule map_inj_on) (auto intro!: inj_onI intro: digit_char_inj)

text \<open>Different numbers print differently.\<close>

lemma decimal_inj: "decimal m = decimal n \<Longrightarrow> m = n"
proof -
  assume eq: "decimal m = decimal n"
  have "rev (if k = 0 then [0] else rev (to_digits 10 k)) = (if k = 0 then [0] else to_digits 10 k)"
    for k :: nat by simp
  have dec: "decimal k = map digit_char (if k = 0 then [0] else rev (to_digits 10 k))" for k
    by (simp add: decimal_def)
  have "(if m = 0 then [0] else rev (to_digits 10 m)) = (if n = 0 then [0] else rev (to_digits 10 n))"
    by (rule map_digit_char_inj) (use eq dec in \<open>auto dest: to_digits_less\<close>)
  then have "of_digits 10 (rev (if m = 0 then [0] else rev (to_digits 10 m)))
      = of_digits 10 (rev (if n = 0 then [0] else rev (to_digits 10 n)))" by simp
  then show "m = n" by (simp split: if_splits)
qed

end
