(* ===== verification/Go_Monad.thy ===== *)
theory Go_Monad
  imports Prelude
begin

text \<open>
  How Go calls are modelled: error values, the store's and gRPC's error types as
  constructors of one datatype, and calls as functions of the state they run in.
  \<open>internal/store/errors.go\<close> is modelled here too, since every layer uses its two types.
\<close>

named_theorems go_run \<open>equations that run a call in a given state\<close>
named_theorems go_split \<open>what the success or failure of a composed call says of its parts\<close>

section \<open>Errors\<close>

text \<open>The status codes of \<open>google.golang.org/grpc/codes\<close>.\<close>

datatype grpc_code =
    CodeOK | CodeCanceled | CodeUnknown | CodeInvalidArgument | CodeDeadlineExceeded
  | CodeNotFound | CodeAlreadyExists | CodePermissionDenied | CodeResourceExhausted
  | CodeFailedPrecondition | CodeAborted | CodeOutOfRange | CodeUnimplemented
  | CodeInternal | CodeUnavailable | CodeDataLoss | CodeUnauthenticated

text \<open>
  The error values that occur: \<open>errors.New\<close>/\<open>fmt.Errorf\<close> without \<open>%w\<close> (\<open>Errorf\<close>),
  \<open>fmt.Errorf("s: %w", err)\<close> (\<open>Wrap s err\<close>), the store's two types, pgx's \<open>ErrNoRows\<close> and
  \<open>*pgconn.PgError\<close> with its code and constraint name, \<open>status.Error(code, msg)\<close> and
  \<open>status.Errorf(code, "s: %v", err)\<close>, and everything that comes from outside the
  repository (a refused connection, the failure of another service) as \<open>External\<close>.
\<close>

datatype go_err =
    Errorf string
  | Wrap string go_err
  | NotFoundError string
  | AlreadyExistsError string
  | ErrNoRows
  | PgError (pg_code: string) (constraint_name: string)
  | Status grpc_code string
  | Statusf grpc_code string go_err
  | External string

definition NotFound :: "string \<Rightarrow> go_err" where
  "NotFound resource = NotFoundError resource"

definition AlreadyExists :: "string \<Rightarrow> go_err" where
  "AlreadyExists resource = AlreadyExistsError resource"

text \<open>The \<open>Error\<close> methods of the store's two types.\<close>

definition not_found_message :: "string \<Rightarrow> string" where
  "not_found_message resource = resource @ '' not found''"

definition already_exists_message :: "string \<Rightarrow> string" where
  "already_exists_message resource = resource @ '' already exists''"

text \<open>\<open>errors.As\<close> and \<open>errors.Is\<close> follow the chain \<open>%w\<close> builds; a gRPC status wraps nothing.\<close>

fun as_not_found :: "go_err \<Rightarrow> string option" where
  "as_not_found (NotFoundError r) = Some r"
| "as_not_found (Wrap s e) = as_not_found e"
| "as_not_found _ = None"

fun as_already_exists :: "go_err \<Rightarrow> string option" where
  "as_already_exists (AlreadyExistsError r) = Some r"
| "as_already_exists (Wrap s e) = as_already_exists e"
| "as_already_exists _ = None"

fun as_pg_error :: "go_err \<Rightarrow> (string \<times> string) option" where
  "as_pg_error (PgError c n) = Some (c, n)"
| "as_pg_error (Wrap s e) = as_pg_error e"
| "as_pg_error _ = None"

fun is_no_rows :: "go_err \<Rightarrow> bool" where
  "is_no_rows ErrNoRows = True"
| "is_no_rows (Wrap s e) = is_no_rows e"
| "is_no_rows _ = False"

text \<open>The code a client sees when a handler returns the error.\<close>

fun error_code :: "go_err \<Rightarrow> grpc_code" where
  "error_code (Status c s) = c"
| "error_code (Statusf c s e) = c"
| "error_code (Wrap s e) = error_code e"
| "error_code _ = CodeUnknown"

section \<open>Calls\<close>

text \<open>
  A call \<open>m\<close> runs in a state \<open>w\<close>. \<open>m w = Some (r, w')\<close>: it returns \<open>r\<close>, which is
  \<open>Inr x\<close> for \<open>(x, nil)\<close> and \<open>Inl e\<close> for a non-nil error, and leaves the state
  \<open>w'\<close>. \<open>m w = None\<close>: the call does not return, because a loop in it does not end or
  because it panics.
\<close>

type_synonym ('w, 'a) go = "'w \<Rightarrow> ((go_err + 'a) \<times> 'w) option"

definition ret :: "'a \<Rightarrow> ('w, 'a) go" where
  "ret x w = Some (Inr x, w)"

definition fail :: "go_err \<Rightarrow> ('w, 'a) go" where
  "fail e w = Some (Inl e, w)"

definition lift :: "go_err + 'a \<Rightarrow> ('w, 'a) go" where
  "lift r w = Some (r, w)"

text \<open>An expression that panics (\<open>None\<close>) or has a value.\<close>

definition need :: "'a option \<Rightarrow> ('w, 'a) go" where
  "need v w = map_option (\<lambda>x. (Inr x, w)) v"

text \<open>\<open>x, err := m; k\<close>, with both results handed on.\<close>

definition attempt :: "('w, 'a) go \<Rightarrow> (go_err + 'a \<Rightarrow> ('w, 'b) go) \<Rightarrow> ('w, 'b) go" where
  "attempt m k w = (case m w of None \<Rightarrow> None | Some (r, w') \<Rightarrow> k r w')"

text \<open>\<open>x, err := m; if err != nil { return f(err) }; k\<close>.\<close>

definition call :: "('w, 'a) go \<Rightarrow> (go_err \<Rightarrow> go_err) \<Rightarrow> ('a \<Rightarrow> ('w, 'b) go) \<Rightarrow> ('w, 'b) go" where
  "call m f k w = attempt m (\<lambda>r. case r of Inl e \<Rightarrow> fail (f e) | Inr x \<Rightarrow> k x) w"

text \<open>\<open>for _, x := range xs { if err := body(x); err != nil { return err } }\<close>.\<close>

fun each :: "('a \<Rightarrow> ('w, unit) go) \<Rightarrow> 'a list \<Rightarrow> ('w, unit) go" where
  "each body [] w = ret () w"
| "each body (x # xs) w = call (body x) id (\<lambda>_. each body xs) w"

text \<open>The same loop when the body's error is only logged.\<close>

fun each_logged :: "('a \<Rightarrow> ('w, unit) go) \<Rightarrow> 'a list \<Rightarrow> ('w, unit) go" where
  "each_logged body [] w = ret () w"
| "each_logged body (x # xs) w = attempt (body x) (\<lambda>_. each_logged body xs) w"

text \<open>A pure conversion of every element that stops at the first error.\<close>

fun map_result :: "('a \<Rightarrow> go_err + 'b) \<Rightarrow> 'a list \<Rightarrow> go_err + 'b list" where
  "map_result f [] = Inr []"
| "map_result f (x # xs) =
    (case f x of Inl e \<Rightarrow> Inl e
     | Inr y \<Rightarrow> (case map_result f xs of Inl e \<Rightarrow> Inl e | Inr ys \<Rightarrow> Inr (y # ys)))"

section \<open>Running calls\<close>

lemma ret_run [go_run, simp]: "ret x w = Some (Inr x, w)"
  by (simp add: ret_def)

lemma fail_run [go_run, simp]: "fail e w = Some (Inl e, w)"
  by (simp add: fail_def)

lemma lift_run [go_run, simp]: "lift r w = Some (r, w)"
  by (simp add: lift_def)

lemma need_run [go_run, simp]: "need None w = None" "need (Some x) w = Some (Inr x, w)"
  by (simp_all add: need_def)

lemma attempt_run [go_run]: "m w = Some (r, w') \<Longrightarrow> attempt m k w = k r w'"
  by (simp add: attempt_def)

lemma call_ok [go_run]: "m w = Some (Inr x, w') \<Longrightarrow> call m f k w = k x w'"
  by (simp add: call_def attempt_def)

lemma call_err [go_run]: "m w = Some (Inl e, w') \<Longrightarrow> call m f k w = Some (Inl (f e), w')"
  by (simp add: call_def attempt_def)

lemma call_ret [simp]: "call (ret x) f k w = k x w"
  by (simp add: call_def attempt_def)

lemma call_fail [simp]: "call (fail e) f k w = Some (Inl (f e), w)"
  by (simp add: call_def attempt_def)

lemma call_lift [simp]:
  "call (lift r) f k w = (case r of Inl e \<Rightarrow> Some (Inl (f e), w) | Inr x \<Rightarrow> k x w)"
  by (simp add: call_def attempt_def split: sum.split)

lemma call_need [simp]:
  "call (need v) f k w = (case v of None \<Rightarrow> None | Some x \<Rightarrow> k x w)"
  by (simp add: call_def attempt_def need_def split: option.split)

lemma call_Inr_iff [go_split]:
  "call m f k w = Some (Inr y, w'') \<longleftrightarrow>
    (\<exists>x w'. m w = Some (Inr x, w') \<and> k x w' = Some (Inr y, w''))"
  by (auto simp: call_def attempt_def split: option.splits sum.splits prod.splits)

lemma callE:
  assumes "call m f k w = Some (Inr y, w'')"
  obtains x w' where "m w = Some (Inr x, w')" "k x w' = Some (Inr y, w'')"
  using assms by (auto simp: call_Inr_iff)

lemma attempt_Some_iff [go_split]:
  "attempt m k w = Some (r, w'') \<longleftrightarrow> (\<exists>r' w'. m w = Some (r', w') \<and> k r' w' = Some (r, w''))"
  by (auto simp: attempt_def split: option.splits)

lemma call_Some_iff:
  "call m f k w = Some (r, w'') \<longleftrightarrow>
    (\<exists>e. m w = Some (Inl e, w'') \<and> r = Inl (f e)) \<or>
    (\<exists>x w'. m w = Some (Inr x, w') \<and> k x w' = Some (r, w''))"
  by (auto simp: call_def attempt_def split: option.splits sum.splits prod.splits)

lemma call_cong:
  "m w = m' w \<Longrightarrow> (\<And>x w'. m w = Some (Inr x, w') \<Longrightarrow> k x w' = k' x w')
    \<Longrightarrow> call m f k w = call m' f k' w"
  by (auto simp: call_def attempt_def split: option.splits sum.splits prod.splits)

lemma map_result_Inr:
  "map_result f xs = Inr ys \<longleftrightarrow> list_all2 (\<lambda>x y. f x = Inr y) xs ys"
proof (induction xs arbitrary: ys)
  case (Cons x xs)
  have IH: "list_all2 (\<lambda>x y. f x = Inr y) xs zs \<longleftrightarrow> map_result f xs = Inr zs" for zs
    by (simp add: Cons.IH)
  show ?case
    by (auto simp: list_all2_Cons1 IH split: sum.splits)
qed auto

lemma map_result_total:
  "(\<And>x. x \<in> set xs \<Longrightarrow> f x = Inr (g x)) \<Longrightarrow> map_result f xs = Inr (map g xs)"
  by (induction xs) auto

section \<open>Calls that return, and what they may change\<close>

text \<open>\<open>returns m\<close>: from every state the call returns; it neither loops for ever nor panics.\<close>

definition returns :: "('w, 'a) go \<Rightarrow> bool" where
  "returns m \<longleftrightarrow> (\<forall>w. m w \<noteq> None)"

text \<open>\<open>within R m\<close>: whenever the call returns, \<open>R\<close> relates the states before and after.\<close>

definition within :: "('w \<Rightarrow> 'w \<Rightarrow> bool) \<Rightarrow> ('w, 'a) go \<Rightarrow> bool" where
  "within R m \<longleftrightarrow> (\<forall>w r w'. m w = Some (r, w') \<longrightarrow> R w w')"

named_theorems returns_intro \<open>rules for calls that return\<close>
named_theorems within_intro \<open>rules for what the calls of a component may change\<close>

lemma returnsI: "(\<And>w. \<exists>r w'. m w = Some (r, w')) \<Longrightarrow> returns m"
  by (force simp: returns_def)

lemma returnsD: "returns m \<Longrightarrow> \<exists>r w'. m w = Some (r, w')"
  by (force simp: returns_def)

lemma returns_ret [returns_intro]: "returns (ret x)"
  by (simp add: returns_def)

lemma returns_fail [returns_intro]: "returns (fail e)"
  by (simp add: returns_def)

lemma returns_lift [returns_intro]: "returns (lift r)"
  by (simp add: returns_def)

lemma returns_need [returns_intro]: "v \<noteq> None \<Longrightarrow> returns (need v)"
  by (auto simp: returns_def)

lemma returns_attempt [returns_intro]:
  "returns m \<Longrightarrow> (\<And>r. returns (k r)) \<Longrightarrow> returns (attempt m k)"
  by (auto simp: returns_def attempt_def split: option.splits)

lemma returns_call [returns_intro]:
  "returns m \<Longrightarrow> (\<And>x. returns (k x)) \<Longrightarrow> returns (call m f k)"
  by (auto simp: returns_def call_def attempt_def split: option.splits sum.splits)

lemma returns_call_value:
  "returns m \<Longrightarrow> (\<And>w x w'. m w = Some (Inr x, w') \<Longrightarrow> k x w' \<noteq> None) \<Longrightarrow> returns (call m f k)"
  by (auto simp: returns_def call_def attempt_def split: option.splits sum.splits)

lemma returns_each [returns_intro]:
  "(\<And>x. x \<in> set xs \<Longrightarrow> returns (body x)) \<Longrightarrow> returns (each body xs)"
proof (induction xs)
  case Nil
  then show ?case by (simp add: returns_def)
next
  case (Cons x xs)
  then have "returns (call (body x) id (\<lambda>_. each body xs))"
    by (intro returns_call) auto
  then show ?case by (simp add: returns_def)
qed

lemma returns_each_logged [returns_intro]:
  "(\<And>x. x \<in> set xs \<Longrightarrow> returns (body x)) \<Longrightarrow> returns (each_logged body xs)"
proof (induction xs)
  case Nil
  then show ?case by (simp add: returns_def)
next
  case (Cons x xs)
  then have "returns (attempt (body x) (\<lambda>_. each_logged body xs))"
    by (intro returns_attempt) auto
  then show ?case by (simp add: returns_def)
qed

text \<open>Branches: a call that returns, or keeps to a relation, on every branch.\<close>

lemma returns_branches [returns_intro]:
  "(b \<Longrightarrow> returns m) \<Longrightarrow> (\<not> b \<Longrightarrow> returns m') \<Longrightarrow> returns (if b then m else m')"
  "(\<And>e. returns (f e)) \<Longrightarrow> (\<And>x. returns (g x)) \<Longrightarrow> returns (case_sum f g r)"
  "returns m \<Longrightarrow> (\<And>x. returns (g x)) \<Longrightarrow> returns (case_option m g v)"
  "(\<And>x y. returns (h x y)) \<Longrightarrow> returns (case_prod h p)"
  by (simp_all split: sum.split option.split prod.split)

lemma within_branches:
  "(b \<Longrightarrow> within R m) \<Longrightarrow> (\<not> b \<Longrightarrow> within R m') \<Longrightarrow> within R (if b then m else m')"
  "(\<And>e. within R (f e)) \<Longrightarrow> (\<And>x. within R (g x)) \<Longrightarrow> within R (case_sum f g r)"
  "within R m \<Longrightarrow> (\<And>x. within R (g x)) \<Longrightarrow> within R (case_option m g v)"
  "(\<And>x y. within R (h x y)) \<Longrightarrow> within R (case_prod h p)"
  by (simp_all split: sum.split option.split prod.split)

text \<open>
  The interface of a relation between states that calls are checked against: a preorder.
  An invariant \<open>I\<close> is the preorder \<open>\<lambda>w w'. I w \<longrightarrow> I w'\<close>, a part \<open>f\<close> of the state that may
  not change is \<open>\<lambda>w w'. f w' = f w\<close>. The lemmas take any call apart along the way it is
  composed, so that a handler's proof is one \<open>intro\<close> over its definition.
\<close>

locale state_preorder =
  fixes R :: "'w \<Rightarrow> 'w \<Rightarrow> bool"
  assumes preorder_refl: "R w w"
    and preorder_trans: "R w w' \<Longrightarrow> R w' w'' \<Longrightarrow> R w w''"
begin

lemma within_ret: "within R (ret x)"
  by (simp add: within_def preorder_refl)

lemma within_fail: "within R (fail e)"
  by (simp add: within_def preorder_refl)

lemma within_lift: "within R (lift r)"
  by (simp add: within_def preorder_refl)

lemma within_need: "within R (need v)"
  by (auto simp: within_def need_def preorder_refl)

lemma within_attempt:
  "within R m \<Longrightarrow> (\<And>r. within R (k r)) \<Longrightarrow> within R (attempt m k)"
  by (fastforce simp: within_def attempt_Some_iff intro: preorder_trans)

lemma within_call:
  "within R m \<Longrightarrow> (\<And>x. within R (k x)) \<Longrightarrow> within R (call m f k)"
  by (fastforce simp: within_def call_Some_iff intro: preorder_trans)

lemma within_each: "(\<And>x. within R (body x)) \<Longrightarrow> within R (each body xs)"
proof (induction xs)
  case Nil
  then show ?case by (simp add: within_def preorder_refl)
next
  case (Cons x xs)
  then have "within R (call (body x) id (\<lambda>_. each body xs))"
    by (intro within_call) auto
  then show ?case by (simp add: within_def)
qed

lemma within_each_logged: "(\<And>x. within R (body x)) \<Longrightarrow> within R (each_logged body xs)"
proof (induction xs)
  case Nil
  then show ?case by (simp add: within_def preorder_refl)
next
  case (Cons x xs)
  then have "within R (attempt (body x) (\<lambda>_. each_logged body xs))"
    by (intro within_attempt) auto
  then show ?case by (simp add: within_def)
qed

lemmas within_rules = within_ret within_fail within_lift within_need within_attempt
  within_call within_each within_each_logged within_branches

end

text \<open>A loop in tail position: what \<^theory_text>\<open>partial_function\<close> needs to know of the combinators.\<close>

lemma attempt_mono [partial_function_mono]:
  assumes m: "mono_option (\<lambda>f. m f w)" and k: "\<And>r w. mono_option (\<lambda>f. k f r w)"
  shows "mono_option (\<lambda>f. attempt (m f) (k f) w)"
proof -
  have "attempt (m f) (k f) w = Option.bind (m f w) (\<lambda>p. k f (fst p) (snd p))" for f
    by (auto simp: attempt_def split: option.split)
  then show ?thesis
    by (simp only:) (rule bind_mono [OF m k])
qed

lemma call_mono [partial_function_mono]:
  assumes m: "mono_option (\<lambda>f. m f w)" and k: "\<And>x w. mono_option (\<lambda>f. k f x w)"
  shows "mono_option (\<lambda>f. call (m f) g (k f) w)"
  unfolding call_def
proof (rule attempt_mono)
  show "mono_option (\<lambda>f. m f w)" by (rule m)
next
  fix r w
  show "mono_option (\<lambda>f. (case r of Inl e \<Rightarrow> fail (g e) | Inr x \<Rightarrow> k f x) w)"
    using k by (cases r) (simp_all add: monotone_on_def option.leq_refl)
qed

section \<open>Paging through a listing\<close>

text \<open>
  The shape of the three paging loops (\<open>listAllUserDevices\<close>,
  \<open>ReconcileAllUserDeviceGroupRoles\<close>, \<open>PollDeviceLiveness\<close>): fetch a page from the cursor,
  wrap its error, work on the page's items, stop when there is no next cursor.
\<close>

partial_function (option) page_loop ::
  "('c option \<Rightarrow> ('w, 'a list \<times> 'c option) go) \<Rightarrow> (go_err \<Rightarrow> go_err)
    \<Rightarrow> ('b \<Rightarrow> 'a list \<Rightarrow> ('w, 'b) go) \<Rightarrow> 'b \<Rightarrow> 'c option \<Rightarrow> ('w, 'b) go" where
  "page_loop fetch wrap body acc cursor w =
    call (fetch cursor) wrap (\<lambda>page.
    call (body acc (fst page)) id (\<lambda>acc' w'.
      case snd page of
        None \<Rightarrow> ret acc' w'
      | Some next \<Rightarrow> page_loop fetch wrap body acc' (Some next) w')) w"

end
