(* ===== verification/Database.thy ===== *)
theory Database
  imports Go_Monad
begin

text \<open>
  The PostgreSQL tables the migrations create (\<open>migrations/*.sql\<close>) and the statements
  \<open>internal/store\<close> sends, with the semantics SQL gives them on these tables: unique indexes,
  foreign keys with \<open>ON DELETE CASCADE\<close>, column defaults, \<open>RETURNING\<close>, \<open>ORDER BY\<close> and
  \<open>LIKE\<close>. A table is the list of its rows. A statement gives its rows or a PostgreSQL error, and the
  tables after it; one that fails changes nothing. The schema's constraints are the invariant
  \<open>schema_ok\<close>, kept by every statement.
\<close>

named_theorems sql_defs \<open>the statements\<close>

section \<open>Tables\<close>

record user_row =
  u_identity_id :: uuid
  u_oidc_subject :: string
  u_name :: string
  u_email :: string
  u_nickname :: string
  u_username :: "string option"
  u_photo_url :: string
  u_created_at :: time
  u_updated_at :: time

record token_row =
  t_id :: uuid
  t_identity_id :: uuid
  t_name :: string
  t_token_hash :: string
  t_token_prefix :: string
  t_expires_at :: "time option"
  t_created_at :: time
  t_last_used_at :: "time option"

record device_row =
  d_id :: uuid
  d_identity_id :: uuid
  d_name :: string
  d_openziti_identity_id :: string
  d_enrollment_jwt :: "string option"
  d_status :: string
  d_connectivity :: string
  d_enrolled_at :: "time option"
  d_last_seen_at :: "time option"
  d_created_at :: time

record database =
  users :: "user_row list"
  user_api_tokens :: "token_row list"
  user_devices :: "device_row list"

definition empty_database :: database where
  "empty_database = \<lparr>users = [], user_api_tokens = [], user_devices = []\<rparr>"

definition user_ids :: "database \<Rightarrow> uuid set" where
  "user_ids d = set (map u_identity_id (users d))"

section \<open>Constraints\<close>

text \<open>The names in use: the unique index on \<open>username\<close> leaves out null.\<close>

definition usernames :: "user_row list \<Rightarrow> string list" where
  "usernames rows = concat (map (\<lambda>r. case u_username r of None \<Rightarrow> [] | Some n \<Rightarrow> [n]) rows)"

definition users_ok :: "user_row list \<Rightarrow> bool" where
  "users_ok rows \<longleftrightarrow>
    distinct (map u_identity_id rows) \<and> distinct (map u_oidc_subject rows) \<and> distinct (usernames rows)"

definition tokens_ok :: "uuid set \<Rightarrow> token_row list \<Rightarrow> bool" where
  "tokens_ok ids rows \<longleftrightarrow>
    distinct (map t_id rows) \<and> distinct (map t_token_hash rows) \<and> set (map t_identity_id rows) \<subseteq> ids"

definition devices_ok :: "uuid set \<Rightarrow> device_row list \<Rightarrow> bool" where
  "devices_ok ids rows \<longleftrightarrow> distinct (map d_id rows) \<and> set (map d_identity_id rows) \<subseteq> ids"

definition schema_ok :: "database \<Rightarrow> bool" where
  "schema_ok d \<longleftrightarrow>
    users_ok (users d) \<and> tokens_ok (user_ids d) (user_api_tokens d) \<and> devices_ok (user_ids d) (user_devices d)"

text \<open>
  The constraint a row would violate beside the given ones, in the order the indexes
  were created.
\<close>

definition user_conflict :: "user_row list \<Rightarrow> user_row \<Rightarrow> string option" where
  "user_conflict rows r =
    (if u_identity_id r \<in> set (map u_identity_id rows) then Some ''users_pkey''
     else if u_oidc_subject r \<in> set (map u_oidc_subject rows) then Some ''users_oidc_subject_idx''
     else if (case u_username r of None \<Rightarrow> False | Some n \<Rightarrow> n \<in> set (usernames rows))
     then Some ''users_username_idx''
     else None)"

definition unique_violation :: string where "unique_violation = ''23505''"
definition foreign_key_violation :: string where "foreign_key_violation = ''23503''"

section \<open>Statements on users\<close>

definition sql_insert_user :: "user_row \<Rightarrow> database \<Rightarrow> (go_err + user_row list) \<times> database" where
  "sql_insert_user r d =
    (case user_conflict (users d) r of
       Some c \<Rightarrow> (Inl (PgError unique_violation c), d)
     | None \<Rightarrow> (Inr [r], d\<lparr>users := users d @ [r]\<rparr>))"

text \<open>\<open>UPDATE users SET ... WHERE identity_id = id RETURNING ...\<close>; \<open>f\<close> is the \<open>SET\<close> list.\<close>

definition sql_update_user ::
  "(user_row \<Rightarrow> user_row) \<Rightarrow> uuid \<Rightarrow> database \<Rightarrow> (go_err + user_row list) \<times> database" where
  "sql_update_user f i d =
    (case filter (\<lambda>r. u_identity_id r = i) (users d) of
       [] \<Rightarrow> (Inr [], d)
     | r # _ \<Rightarrow>
        (case user_conflict (filter (\<lambda>r. u_identity_id r \<noteq> i) (users d)) (f r) of
           Some c \<Rightarrow> (Inl (PgError unique_violation c), d)
         | None \<Rightarrow>
            (Inr [f r], d\<lparr>users := map (\<lambda>r. if u_identity_id r = i then f r else r) (users d)\<rparr>)))"

text \<open>\<open>DELETE FROM users WHERE identity_id = id\<close>: the rows affected; tokens and devices cascade.\<close>

definition sql_delete_user :: "uuid \<Rightarrow> database \<Rightarrow> (go_err + nat) \<times> database" where
  "sql_delete_user i d =
    (let n = length (filter (\<lambda>r. u_identity_id r = i) (users d))
     in if n = 0 then (Inr 0, d)
        else (Inr n, \<lparr>users = filter (\<lambda>r. u_identity_id r \<noteq> i) (users d),
                      user_api_tokens = filter (\<lambda>t. t_identity_id t \<noteq> i) (user_api_tokens d),
                      user_devices = filter (\<lambda>v. d_identity_id v \<noteq> i) (user_devices d)\<rparr>))"

definition sql_select_users ::
  "(user_row \<Rightarrow> bool) \<Rightarrow> database \<Rightarrow> (go_err + user_row list) \<times> database" where
  "sql_select_users p d = (Inr (filter p (users d)), d)"

definition sql_select_users_by_id ::
  "(user_row \<Rightarrow> bool) \<Rightarrow> database \<Rightarrow> (go_err + user_row list) \<times> database" where
  "sql_select_users_by_id p d = (Inr (sort_key u_identity_id (filter p (users d))), d)"

text \<open>
  \<open>LIKE\<close> with the default escape character. An underscore stands for one character; the
  model reads it as one byte, which no pattern of the source depends on, since the source
  escapes every underscore.
\<close>

fun like :: "string \<Rightarrow> string \<Rightarrow> bool" where
  "like [] s \<longleftrightarrow> s = []"
| "like (c # p) s \<longleftrightarrow>
    (if c = CHR 0x5C then
       (case p of [] \<Rightarrow> False
        | e # q \<Rightarrow> (case s of [] \<Rightarrow> False | x # xs \<Rightarrow> x = e \<and> like q xs))
     else if c = CHR ''%'' then
       like p s \<or> (case s of [] \<Rightarrow> False | x # xs \<Rightarrow> like (c # p) xs)
     else (case s of [] \<Rightarrow> False | x # xs \<Rightarrow> (c = CHR ''_'' \<or> x = c) \<and> like p xs))"

text \<open>Sorting by a comparison the database chooses (a collation), stable.\<close>

fun insert_by :: "('a \<Rightarrow> 'a \<Rightarrow> bool) \<Rightarrow> 'a \<Rightarrow> 'a list \<Rightarrow> 'a list" where
  "insert_by le x [] = [x]"
| "insert_by le x (y # ys) = (if le x y then x # y # ys else y # insert_by le x ys)"

definition sort_by :: "('a \<Rightarrow> 'a \<Rightarrow> bool) \<Rightarrow> 'a list \<Rightarrow> 'a list" where
  "sort_by le xs = foldr (insert_by le) xs []"

text \<open>\<open>ORDER BY (username = $2) DESC, username ASC\<close>.\<close>

definition search_before ::
  "(string \<Rightarrow> string \<Rightarrow> bool) \<Rightarrow> string \<Rightarrow> user_row \<Rightarrow> user_row \<Rightarrow> bool" where
  "search_before collate p r s \<longleftrightarrow>
    (let a = the (u_username r); b = the (u_username s)
     in if a = p \<and> b \<noteq> p then True else if a \<noteq> p \<and> b = p then False else collate a b)"

definition sql_search_users ::
  "(string \<Rightarrow> string \<Rightarrow> bool) \<Rightarrow> string \<Rightarrow> string \<Rightarrow> nat \<Rightarrow> database
    \<Rightarrow> (go_err + user_row list) \<times> database" where
  "sql_search_users collate pattern exact limit d =
    (Inr (take limit (sort_by (search_before collate exact)
       (filter (\<lambda>r. case u_username r of None \<Rightarrow> False | Some n \<Rightarrow> n \<noteq> [] \<and> like pattern n) (users d)))), d)"

section \<open>Statements on tokens\<close>

definition sql_insert_token :: "token_row \<Rightarrow> database \<Rightarrow> (go_err + token_row list) \<times> database" where
  "sql_insert_token t d =
    (if t_id t \<in> set (map t_id (user_api_tokens d))
     then (Inl (PgError unique_violation ''user_api_tokens_pkey''), d)
     else if t_token_hash t \<in> set (map t_token_hash (user_api_tokens d))
     then (Inl (PgError unique_violation ''user_api_tokens_token_hash_idx''), d)
     else if t_identity_id t \<notin> user_ids d
     then (Inl (PgError foreign_key_violation ''user_api_tokens_identity_id_fkey''), d)
     else (Inr [t], d\<lparr>user_api_tokens := user_api_tokens d @ [t]\<rparr>))"

definition sql_select_tokens_newest ::
  "uuid \<Rightarrow> database \<Rightarrow> (go_err + token_row list) \<times> database" where
  "sql_select_tokens_newest i d =
    (Inr (sort_key (\<lambda>t. - t_created_at t) (filter (\<lambda>t. t_identity_id t = i) (user_api_tokens d))), d)"

definition sql_delete_token :: "uuid \<Rightarrow> uuid \<Rightarrow> database \<Rightarrow> (go_err + nat) \<times> database" where
  "sql_delete_token k i d =
    (let p = (\<lambda>t. t_id t = k \<and> t_identity_id t = i)
     in (Inr (length (filter p (user_api_tokens d))),
         d\<lparr>user_api_tokens := filter (\<lambda>t. \<not> p t) (user_api_tokens d)\<rparr>))"

text \<open>The live token with a hash gets \<open>last_used_at = NOW()\<close>.\<close>

definition token_live :: "time \<Rightarrow> token_row \<Rightarrow> bool" where
  "token_live now t \<longleftrightarrow> (case t_expires_at t of None \<Rightarrow> True | Some e \<Rightarrow> now < e)"

definition sql_touch_token ::
  "time \<Rightarrow> string \<Rightarrow> database \<Rightarrow> (go_err + token_row list) \<times> database" where
  "sql_touch_token now h d =
    (let p = (\<lambda>t. t_token_hash t = h \<and> token_live now t);
         touch = (\<lambda>t. t\<lparr>t_last_used_at := Some now\<rparr>)
     in (Inr (map touch (filter p (user_api_tokens d))),
         d\<lparr>user_api_tokens := map (\<lambda>t. if p t then touch t else t) (user_api_tokens d)\<rparr>))"

definition sql_select_token :: "string \<Rightarrow> database \<Rightarrow> (go_err + token_row list) \<times> database" where
  "sql_select_token h d = (Inr (filter (\<lambda>t. t_token_hash t = h) (user_api_tokens d)), d)"

section \<open>Statements on devices\<close>

definition sql_insert_device :: "device_row \<Rightarrow> database \<Rightarrow> (go_err + device_row list) \<times> database" where
  "sql_insert_device v d =
    (if d_id v \<in> set (map d_id (user_devices d))
     then (Inl (PgError unique_violation ''user_devices_pkey''), d)
     else if d_identity_id v \<notin> user_ids d
     then (Inl (PgError foreign_key_violation ''user_devices_identity_id_fkey''), d)
     else (Inr [v], d\<lparr>user_devices := user_devices d @ [v]\<rparr>))"

definition sql_update_device ::
  "(device_row \<Rightarrow> device_row) \<Rightarrow> uuid \<Rightarrow> database \<Rightarrow> (go_err + device_row list) \<times> database" where
  "sql_update_device f k d =
    (Inr (map f (filter (\<lambda>v. d_id v = k) (user_devices d))),
     d\<lparr>user_devices := map (\<lambda>v. if d_id v = k then f v else v) (user_devices d)\<rparr>)"

definition sql_select_devices_by_id ::
  "(device_row \<Rightarrow> bool) \<Rightarrow> database \<Rightarrow> (go_err + device_row list) \<times> database" where
  "sql_select_devices_by_id p d = (Inr (sort_key d_id (filter p (user_devices d))), d)"

definition sql_delete_device ::
  "uuid \<Rightarrow> uuid \<Rightarrow> database \<Rightarrow> (go_err + device_row list) \<times> database" where
  "sql_delete_device k i d =
    (let p = (\<lambda>v. d_id v = k \<and> d_identity_id v = i)
     in (Inr (filter p (user_devices d)),
         d\<lparr>user_devices := filter (\<lambda>v. \<not> p v) (user_devices d)\<rparr>))"

declare sql_insert_user_def [sql_defs] sql_update_user_def [sql_defs] sql_delete_user_def [sql_defs]
  sql_select_users_def [sql_defs] sql_select_users_by_id_def [sql_defs] sql_search_users_def [sql_defs]
  sql_insert_token_def [sql_defs] sql_select_tokens_newest_def [sql_defs] sql_delete_token_def [sql_defs]
  sql_touch_token_def [sql_defs] sql_select_token_def [sql_defs] sql_insert_device_def [sql_defs]
  sql_update_device_def [sql_defs] sql_select_devices_by_id_def [sql_defs] sql_delete_device_def [sql_defs]

section \<open>Every statement keeps the constraints\<close>

lemma usernames_append: "usernames (xs @ ys) = usernames xs @ usernames ys"
  by (simp add: usernames_def)

lemma usernames_single: "usernames [r] = (case u_username r of None \<Rightarrow> [] | Some n \<Rightarrow> [n])"
  by (simp add: usernames_def split: option.split)

lemma set_usernames: "n \<in> set (usernames rows) \<longleftrightarrow> (\<exists>r \<in> set rows. u_username r = Some n)"
  by (force simp: usernames_def split: option.splits)

lemma usernames_Cons:
  "usernames (r # rows) = (case u_username r of None \<Rightarrow> [] | Some n \<Rightarrow> [n]) @ usernames rows"
  by (simp add: usernames_def)

lemma distinct_usernames_filter: "distinct (usernames rows) \<Longrightarrow> distinct (usernames (filter p rows))"
  by (induction rows) (auto simp: usernames_Cons set_usernames split: option.splits)

lemma distinct_map_filter: "distinct (map f xs) \<Longrightarrow> distinct (map f (filter p xs))"
  by (induction xs) auto

text \<open>A column no assignment writes stays as it is.\<close>

lemma map_keeps: "(\<And>x. f (g x) = f x) \<Longrightarrow> map f (map g xs) = map f xs"
  by simp

lemma users_ok_insert: "users_ok rows \<Longrightarrow> user_conflict rows r = None \<Longrightarrow> users_ok (rows @ [r])"
  by (auto simp: users_ok_def user_conflict_def usernames_append usernames_single
      split: option.splits if_splits)

lemma users_ok_filter: "users_ok rows \<Longrightarrow> users_ok (filter p rows)"
  by (simp add: users_ok_def distinct_map_filter distinct_usernames_filter)

lemma tokens_ok_mono: "tokens_ok ids rows \<Longrightarrow> ids \<subseteq> ids' \<Longrightarrow> tokens_ok ids' rows"
  by (auto simp: tokens_ok_def)

lemma devices_ok_mono: "devices_ok ids rows \<Longrightarrow> ids \<subseteq> ids' \<Longrightarrow> devices_ok ids' rows"
  by (auto simp: devices_ok_def)

lemma tokens_ok_filter: "tokens_ok ids rows \<Longrightarrow> tokens_ok ids (filter p rows)"
  by (auto simp: tokens_ok_def distinct_map_filter)

lemma devices_ok_filter: "devices_ok ids rows \<Longrightarrow> devices_ok ids (filter p rows)"
  by (auto simp: devices_ok_def distinct_map_filter)

text \<open>Replacing the row with an id by one that conflicts with no other row.\<close>

lemma users_ok_replace:
  assumes "users_ok rows" and "r \<in> set rows" and "u_identity_id r = i"
    and "user_conflict (filter (\<lambda>r. u_identity_id r \<noteq> i) rows) (f r) = None"
    and "u_identity_id (f r) = i"
  shows "users_ok (map (\<lambda>r. if u_identity_id r = i then f r else r) rows)"
proof -
  obtain xs ys where rows: "rows = xs @ r # ys" using assms(2) by (blast dest: split_list)
  let ?g = "\<lambda>r. if u_identity_id r = i then f r else r"
  have other: "u_identity_id s \<noteq> i" if "s \<in> set xs \<union> set ys" for s
    using assms(1,3) that unfolding rows users_ok_def by (auto simp: image_iff)
  then have "map ?g rows = xs @ f r # ys" and fl: "filter (\<lambda>r. u_identity_id r \<noteq> i) rows = xs @ ys"
    using assms(3) by (auto simp: rows map_idI filter_id_conv)
  moreover have "users_ok (xs @ ys)"
    using users_ok_filter [OF assms(1), of "\<lambda>r. u_identity_id r \<noteq> i"] fl by simp
  ultimately show ?thesis
    using assms(4) by (auto simp: users_ok_def user_conflict_def usernames_append usernames_Cons
        split: option.splits if_splits)
qed

lemma schema_insert_user:
  "schema_ok d \<Longrightarrow> schema_ok (snd (sql_insert_user r d))"
  by (auto simp: sql_insert_user_def schema_ok_def user_ids_def users_ok_insert
      elim: tokens_ok_mono devices_ok_mono split: option.split)

lemma schema_update_user:
  assumes "schema_ok d" and "\<And>r. u_identity_id (f r) = u_identity_id r"
  shows "schema_ok (snd (sql_update_user f i d))"
proof (cases "filter (\<lambda>r. u_identity_id r = i) (users d)")
  case Nil
  then show ?thesis using assms(1) by (simp add: sql_update_user_def)
next
  case (Cons r rs)
  then have r: "r \<in> set (users d)" "u_identity_id r = i"
    by (auto simp: filter_eq_Cons_iff)
  have same: "map u_identity_id (map (\<lambda>r. if u_identity_id r = i then f r else r) rows) = map u_identity_id rows"
    for rows by (rule map_keeps) (simp add: assms(2))
  show ?thesis
    using Cons assms users_ok_replace [of "users d" r i f] r
    by (simp add: sql_update_user_def schema_ok_def user_ids_def same del: map_map set_map
        split: option.split)
qed

lemma schema_delete_user: "schema_ok d \<Longrightarrow> schema_ok (snd (sql_delete_user i d))"
  by (auto simp: sql_delete_user_def schema_ok_def user_ids_def users_ok_filter Let_def
      tokens_ok_def devices_ok_def distinct_map_filter)

lemma schema_insert_token: "schema_ok d \<Longrightarrow> schema_ok (snd (sql_insert_token t d))"
  by (auto simp: sql_insert_token_def schema_ok_def user_ids_def tokens_ok_def)

lemma schema_delete_token: "schema_ok d \<Longrightarrow> schema_ok (snd (sql_delete_token k i d))"
  by (auto simp: sql_delete_token_def schema_ok_def user_ids_def tokens_ok_filter Let_def)

lemma schema_touch_token: "schema_ok d \<Longrightarrow> schema_ok (snd (sql_touch_token now h d))"
proof -
  assume ok: "schema_ok d"
  let ?p = "\<lambda>t. t_token_hash t = h \<and> token_live now t"
  let ?g = "\<lambda>t. if ?p t then t\<lparr>t_last_used_at := Some now\<rparr> else t"
  have "map t_id (map ?g rows) = map t_id rows" "map t_token_hash (map ?g rows) = map t_token_hash rows"
    "map t_identity_id (map ?g rows) = map t_identity_id rows" for rows
    by (rule map_keeps, simp)+
  then have "tokens_ok ids (map ?g rows) = tokens_ok ids rows" for ids rows
    by (simp add: tokens_ok_def del: map_map set_map)
  with ok show ?thesis by (simp add: sql_touch_token_def schema_ok_def user_ids_def Let_def)
qed

lemma schema_insert_device: "schema_ok d \<Longrightarrow> schema_ok (snd (sql_insert_device v d))"
  by (auto simp: sql_insert_device_def schema_ok_def user_ids_def devices_ok_def)

lemma schema_update_device:
  assumes "schema_ok d" and "\<And>v. d_id (f v) = d_id v" and "\<And>v. d_identity_id (f v) = d_identity_id v"
  shows "schema_ok (snd (sql_update_device f k d))"
proof -
  let ?g = "\<lambda>v. if d_id v = k then f v else v"
  have "map d_id (map ?g rows) = map d_id rows" "map d_identity_id (map ?g rows) = map d_identity_id rows"
    for rows by (rule map_keeps, simp add: assms)+
  then have "devices_ok ids (map ?g rows) = devices_ok ids rows" for ids rows
    by (simp add: devices_ok_def del: map_map set_map)
  with assms(1) show ?thesis by (simp add: sql_update_device_def schema_ok_def user_ids_def)
qed

lemma schema_delete_device: "schema_ok d \<Longrightarrow> schema_ok (snd (sql_delete_device k i d))"
  by (auto simp: sql_delete_device_def schema_ok_def user_ids_def devices_ok_filter Let_def)

lemma select_unchanged [simp]:
  "snd (sql_select_users p d) = d" "snd (sql_select_users_by_id p d) = d"
  "snd (sql_search_users c pat e n d) = d" "snd (sql_select_tokens_newest i d) = d"
  "snd (sql_select_token h d) = d" "snd (sql_select_devices_by_id q d) = d"
  by (simp_all add: sql_defs)

lemmas schema_statements = schema_insert_user schema_update_user schema_delete_user
  schema_insert_token schema_delete_token schema_touch_token schema_insert_device
  schema_update_device schema_delete_device

lemma schema_empty: "schema_ok empty_database"
  by (simp add: schema_ok_def empty_database_def users_ok_def tokens_ok_def devices_ok_def usernames_def)

section \<open>Sorting by a comparison\<close>

lemma set_insert_by: "set (insert_by le x ys) = insert x (set ys)"
  by (induction ys) auto

lemma length_insert_by [simp]: "length (insert_by le x ys) = Suc (length ys)"
  by (induction ys) auto

lemma set_sort_by [simp]: "set (sort_by le xs) = set xs"
  by (induction xs) (auto simp: sort_by_def set_insert_by)

lemma length_sort_by [simp]: "length (sort_by le xs) = length xs"
  by (induction xs) (auto simp: sort_by_def)

lemma distinct_insert_by: "distinct (insert_by le x ys) \<longleftrightarrow> x \<notin> set ys \<and> distinct ys"
  by (induction ys) (auto simp: set_insert_by)

lemma distinct_sort_by [simp]: "distinct (sort_by le xs) = distinct xs"
proof (induction xs)
  case (Cons x xs)
  have "sort_by le (x # xs) = insert_by le x (sort_by le xs)" by (simp add: sort_by_def)
  with Cons show ?case by (simp add: distinct_insert_by)
qed (simp add: sort_by_def)

lemma sorted_insert_by:
  assumes "\<And>a b. le a b \<or> le b a" and "\<And>a b c. le a b \<Longrightarrow> le b c \<Longrightarrow> le a c"
  shows "sorted_wrt le ys \<Longrightarrow> sorted_wrt le (insert_by le x ys)"
proof (induction ys)
  case (Cons y ys)
  then show ?case using assms by (auto simp: set_insert_by)
qed simp

lemma sorted_sort_by:
  assumes "\<And>a b. le a b \<or> le b a" and "\<And>a b c. le a b \<Longrightarrow> le b c \<Longrightarrow> le a c"
  shows "sorted_wrt le (sort_by le xs)"
  by (induction xs) (simp_all add: sort_by_def sorted_insert_by [OF assms])

end
