(* ===== verification/Environment.thy ===== *)
theory Environment
  imports Database
begin

text \<open>
  Everything the service calls that is not in the repository, as one record of functions: the
  PostgreSQL session, the other gRPC services, the generated protobuf code, the \<open>uuid\<close>,
  \<open>grpc\<close> and \<open>timestamppb\<close> packages, the clock and the random source. Each function reads and
  changes a state of the outside world whose type \<open>'x\<close> is left open, so that every theorem about the
  service holds for every behaviour of these parts that its hypotheses name. The state the
  service runs in is that outside state and the database.
\<close>

section \<open>Messages of the other services\<close>

text \<open>Protobuf enums are open: a value outside the declared ones is kept as its number.\<close>

datatype cluster_role = CLUSTER_ROLE_UNSPECIFIED | CLUSTER_ROLE_ADMIN | CLUSTER_ROLE_OTHER int
datatype identity_type = IDENTITY_TYPE_USER | IDENTITY_TYPE_OTHER int
datatype enrollment_state = ENROLLMENT_STATE_PENDING | ENROLLMENT_STATE_ENROLLED | ENROLLMENT_STATE_OTHER int
datatype member_type = MEMBER_TYPE_USER | MEMBER_TYPE_OTHER int

datatype timestamp = Timestamp (ts_seconds: int) (ts_nanos: int)

record tuple_key =
  tk_user :: string
  tk_relation :: string
  tk_object :: string

record write_request =
  wr_writes :: "tuple_key list"
  wr_deletes :: "tuple_key list"

record list_objects_request =
  lo_type :: string
  lo_relation :: string
  lo_user :: string

record register_identity_request =
  ri_identity_id :: string
  ri_identity_type :: identity_type

record create_device_identity_request =
  cd_user_identity_id :: string
  cd_name :: string
  cd_additional_role_attributes :: "string list"

record create_device_identity_response =
  cd_ziti_identity_id :: string
  cd_enrollment_jwt :: string

record patch_role_attributes_request =
  pr_ziti_identity_id :: string
  pr_add :: "string list"
  pr_remove :: "string list"

record liveness_response =
  lv_enrollment_state :: enrollment_state
  lv_has_edge_router_connection :: bool

record list_member_groups_request =
  lg_member_type :: member_type
  lg_member_id :: string
  lg_organization_id :: string
  lg_page_size :: int32
  lg_page_token :: string

text \<open>Of a group only \<open>GetMeta().GetId()\<close> is read.\<close>

record list_member_groups_response =
  lg_group_ids :: "string list"
  lg_next_page_token :: string

record membership_event =
  me_member_type :: member_type
  me_member_id :: string
  me_group_id :: string

section \<open>Contexts\<close>

text \<open>
  A request's context: the incoming metadata, if any, as its \<open>Get\<close> function, and the
  key-value pairs appended to the outgoing metadata.
\<close>

record ctx =
  incoming :: "(string \<Rightarrow> string list) option"
  outgoing :: "(string \<times> string) list"

definition background :: ctx where
  "background = \<lparr>incoming = None, outgoing = []\<rparr>"

definition append_outgoing :: "ctx \<Rightarrow> string \<Rightarrow> string \<Rightarrow> ctx" where
  "append_outgoing c k v = c\<lparr>outgoing := outgoing c @ [(k, v)]\<rparr>"

section \<open>The outside world\<close>

text \<open>
  What a statement meets: what other sessions did to the tables since the last one, the time
  \<open>NOW()\<close> gives, the value a column default \<open>uuid_generate_v4()\<close> would give, and whether
  the connection fails before the statement runs or after it took effect.
\<close>

datatype fault = NoFault | FaultBefore string | FaultAfter string

record session =
  s_interfere :: "database \<Rightarrow> database"
  s_now :: time
  s_uuid :: uuid
  s_fault :: fault

record 'x env =
  e_session :: "'x \<Rightarrow> session \<times> 'x"
  e_collate :: "string \<Rightarrow> string \<Rightarrow> bool"
  e_db_time :: "time \<Rightarrow> time"
  e_now :: "'x \<Rightarrow> time \<times> 'x"
  e_rand_read :: "nat \<Rightarrow> 'x \<Rightarrow> (go_err + 8 word list) \<times> 'x"
  e_rand_int :: "nat \<Rightarrow> 'x \<Rightarrow> (go_err + nat) \<times> 'x"
  e_uuid_new :: "'x \<Rightarrow> uuid \<times> 'x"
  e_uuid_string :: "uuid \<Rightarrow> string"
  e_uuid_parse :: "string \<Rightarrow> go_err + uuid"
  e_status_code :: "go_err \<Rightarrow> grpc_code"
  e_ts_new :: "time \<Rightarrow> timestamp"
  e_ts_check :: "timestamp \<Rightarrow> go_err + unit"
  e_ts_time :: "timestamp \<Rightarrow> time"
  e_unmarshal_added :: "string \<Rightarrow> go_err + membership_event"
  e_unmarshal_removed :: "string \<Rightarrow> go_err + membership_event"
  e_check :: "ctx \<Rightarrow> tuple_key \<Rightarrow> 'x \<Rightarrow> (go_err + bool) \<times> 'x"
  e_write :: "ctx \<Rightarrow> write_request \<Rightarrow> 'x \<Rightarrow> (go_err + unit) \<times> 'x"
  e_list_objects :: "ctx \<Rightarrow> list_objects_request \<Rightarrow> 'x \<Rightarrow> (go_err + string list) \<times> 'x"
  e_register_identity :: "ctx \<Rightarrow> register_identity_request \<Rightarrow> 'x \<Rightarrow> (go_err + unit) \<times> 'x"
  e_create_device_identity ::
    "ctx \<Rightarrow> create_device_identity_request \<Rightarrow> 'x \<Rightarrow> (go_err + create_device_identity_response) \<times> 'x"
  e_delete_device_identity :: "ctx \<Rightarrow> string \<Rightarrow> 'x \<Rightarrow> (go_err + unit) \<times> 'x"
  e_patch_role_attributes :: "ctx \<Rightarrow> patch_role_attributes_request \<Rightarrow> 'x \<Rightarrow> (go_err + unit) \<times> 'x"
  e_identity_liveness :: "ctx \<Rightarrow> string \<Rightarrow> 'x \<Rightarrow> (go_err + liveness_response) \<times> 'x"
  e_msg_ack :: "string \<Rightarrow> string \<Rightarrow> 'x \<Rightarrow> (go_err + unit) \<times> 'x"
  e_msg_nak :: "string \<Rightarrow> string \<Rightarrow> 'x \<Rightarrow> (go_err + unit) \<times> 'x"
  e_groups_client ::
    "(ctx \<Rightarrow> list_member_groups_request \<Rightarrow> 'x \<Rightarrow> (go_err + list_member_groups_response) \<times> 'x) option"

record 'x world =
  db :: database
  ext :: 'x

section \<open>Calls to the outside\<close>

definition ext_call :: "('x \<Rightarrow> (go_err + 'a) \<times> 'x) \<Rightarrow> ('x world, 'a) go" where
  "ext_call f w = (case f (ext w) of (r, x) \<Rightarrow> Some (r, w\<lparr>ext := x\<rparr>))"

definition ext_value :: "('x \<Rightarrow> 'a \<times> 'x) \<Rightarrow> ('x world, 'a) go" where
  "ext_value f w = (case f (ext w) of (v, x) \<Rightarrow> Some (Inr v, w\<lparr>ext := x\<rparr>))"

text \<open>One statement on the pool: \<open>pool.Query\<close>, \<open>pool.QueryRow\<close>, \<open>pool.Exec\<close>.\<close>

definition run_sql ::
  "'x env \<Rightarrow> (session \<Rightarrow> database \<Rightarrow> (go_err + 'r) \<times> database) \<Rightarrow> ('x world, 'r) go" where
  "run_sql E stmt w =
    (case e_session E (ext w) of (s, x) \<Rightarrow>
       let d = s_interfere s (db w) in
       (case s_fault s of
          FaultBefore msg \<Rightarrow> Some (Inl (External msg), \<lparr>db = d, ext = x\<rparr>)
        | FaultAfter msg \<Rightarrow> Some (Inl (External msg), \<lparr>db = snd (stmt s d), ext = x\<rparr>)
        | NoFault \<Rightarrow> Some (fst (stmt s d), \<lparr>db = snd (stmt s d), ext = x\<rparr>)))"

text \<open>\<open>QueryRow(...)\<close> and \<open>Scan\<close> of its row; \<open>Query(...)\<close> and the loop over its rows.\<close>

definition query_row ::
  "'x env \<Rightarrow> (session \<Rightarrow> database \<Rightarrow> (go_err + 'r list) \<times> database) \<Rightarrow> ('r \<Rightarrow> go_err + 'a)
    \<Rightarrow> ('x world, 'a) go" where
  "query_row E stmt scan =
    call (run_sql E stmt) id (\<lambda>rows.
    lift (case rows of [] \<Rightarrow> Inl ErrNoRows | r # _ \<Rightarrow> scan r))"

definition query ::
  "'x env \<Rightarrow> (session \<Rightarrow> database \<Rightarrow> (go_err + 'r list) \<times> database) \<Rightarrow> ('r \<Rightarrow> go_err + 'a)
    \<Rightarrow> ('x world, 'a list) go" where
  "query E stmt scan =
    call (run_sql E stmt) id (\<lambda>rows. lift (map_result scan rows))"

section \<open>Assumptions on the outside that theorems name\<close>

text \<open>
  \<open>quiet E\<close>: no other session writes and no statement fails on its way.
  \<open>alone E\<close>: no other session writes, but a connection may fail at any statement, before the statement or after
  it took effect; \<open>fails_before E\<close>: a statement whose connection fails has not taken effect.
  \<open>lawful E I\<close>: other sessions keep \<open>I\<close>; for the constraints of the schema PostgreSQL sees to that.
\<close>

definition quiet :: "'x env \<Rightarrow> bool" where
  "quiet E \<longleftrightarrow> (\<forall>x. s_fault (fst (e_session E x)) = NoFault \<and> s_interfere (fst (e_session E x)) = id)"

definition alone :: "'x env \<Rightarrow> bool" where
  "alone E \<longleftrightarrow> (\<forall>x. s_interfere (fst (e_session E x)) = id)"

definition fails_before :: "'x env \<Rightarrow> bool" where
  "fails_before E \<longleftrightarrow> (\<forall>x msg. s_fault (fst (e_session E x)) \<noteq> FaultAfter msg)"

definition lawful :: "'x env \<Rightarrow> (database \<Rightarrow> bool) \<Rightarrow> bool" where
  "lawful E I \<longleftrightarrow> (\<forall>x d. I d \<longrightarrow> I (s_interfere (fst (e_session E x)) d))"

text \<open>\<open>uuid.Parse\<close> reads what \<open>String\<close> writes.\<close>

definition uuid_codec :: "'x env \<Rightarrow> bool" where
  "uuid_codec E \<longleftrightarrow> (\<forall>u. e_uuid_parse E (e_uuid_string E u) = Inr u)"

lemma quiet_lawful: "quiet E \<Longrightarrow> lawful E I"
  by (simp add: quiet_def lawful_def)

section \<open>How calls to the outside run\<close>

lemma run_sql_quiet:
  assumes "quiet E"
  shows "run_sql E stmt w =
    (let s = fst (e_session E (ext w)); p = stmt s (db w)
     in Some (fst p, \<lparr>db = snd p, ext = snd (e_session E (ext w))\<rparr>))"
proof -
  obtain s x where s: "e_session E (ext w) = (s, x)" by fastforce
  have "s_fault s = NoFault" "s_interfere s = id"
    using assms unfolding quiet_def by (metis s fst_conv)+
  with s show ?thesis by (simp add: run_sql_def Let_def)
qed

lemma returns_ext_call [returns_intro]: "returns (ext_call f)"
  by (simp add: returns_def ext_call_def split: prod.split)

lemma returns_ext_value [returns_intro]: "returns (ext_value f)"
  by (simp add: returns_def ext_value_def split: prod.split)

lemma returns_run_sql [returns_intro]: "returns (run_sql E stmt)"
  by (simp add: returns_def run_sql_def Let_def split: prod.split fault.split)

lemma returns_query_row [returns_intro]: "returns (query_row E stmt scan)"
  unfolding query_row_def by (intro returns_intro)

lemma returns_query [returns_intro]: "returns (query E stmt scan)"
  unfolding query_def by (intro returns_intro)

text \<open>The two relations calls are checked against: an invariant of the tables kept, and the tables unchanged.\<close>

definition keeps :: "(database \<Rightarrow> bool) \<Rightarrow> 'x world \<Rightarrow> 'x world \<Rightarrow> bool" where
  "keeps I w w' \<longleftrightarrow> (I (db w) \<longrightarrow> I (db w'))"

definition tables_same :: "'x world \<Rightarrow> 'x world \<Rightarrow> bool" where
  "tables_same w w' \<longleftrightarrow> db w' = db w"

interpretation kept: state_preorder "keeps I" for I
  by unfold_locales (auto simp: keeps_def)

interpretation same: state_preorder tables_same
  by unfold_locales (auto simp: tables_same_def)

lemma kept_ext_call: "within (keeps I) (ext_call f)"
  by (auto simp: within_def ext_call_def keeps_def split: prod.splits)

lemma kept_ext_value: "within (keeps I) (ext_value f)"
  by (auto simp: within_def ext_value_def keeps_def split: prod.splits)

lemma kept_run_sql:
  "lawful E I \<Longrightarrow> (\<And>s d. I d \<Longrightarrow> I (snd (stmt s d))) \<Longrightarrow> within (keeps I) (run_sql E stmt)"
  unfolding within_def
proof (intro allI impI)
  fix w r w'
  assume E: "lawful E I" and stmt: "\<And>s d. I d \<Longrightarrow> I (snd (stmt s d))"
    and run: "run_sql E stmt w = Some (r, w')"
  obtain s x where s: "e_session E (ext w) = (s, x)" by fastforce
  have "I (db w) \<Longrightarrow> I (s_interfere s (db w))"
    using E unfolding lawful_def by (metis s fst_conv)
  with stmt run s show "keeps I w w'"
    by (auto simp: run_sql_def keeps_def Let_def split: fault.splits)
qed

lemma same_db: "within tables_same m \<Longrightarrow> m w = Some (r, w') \<Longrightarrow> db w' = db w"
  by (auto simp: within_def tables_same_def)

lemma same_ext_call: "within tables_same (ext_call f)"
  by (auto simp: within_def ext_call_def tables_same_def split: prod.splits)

lemma same_ext_value: "within tables_same (ext_value f)"
  by (auto simp: within_def ext_value_def tables_same_def split: prod.splits)

lemma same_run_sql: "quiet E \<Longrightarrow> (\<And>s d. snd (stmt s d) = d) \<Longrightarrow> within tables_same (run_sql E stmt)"
  by (auto simp: within_def run_sql_quiet tables_same_def Let_def)

lemma kept_query_row:
  "lawful E I \<Longrightarrow> (\<And>s d. I d \<Longrightarrow> I (snd (stmt s d))) \<Longrightarrow> within (keeps I) (query_row E stmt scan)"
  unfolding query_row_def by (intro kept.within_rules kept_run_sql)

lemma kept_query:
  "lawful E I \<Longrightarrow> (\<And>s d. I d \<Longrightarrow> I (snd (stmt s d))) \<Longrightarrow> within (keeps I) (query E stmt scan)"
  unfolding query_def by (intro kept.within_rules kept_run_sql)

lemma same_query_row:
  "quiet E \<Longrightarrow> (\<And>s d. snd (stmt s d) = d) \<Longrightarrow> within tables_same (query_row E stmt scan)"
  unfolding query_row_def by (intro same.within_rules same_run_sql)

lemma same_query:
  "quiet E \<Longrightarrow> (\<And>s d. snd (stmt s d) = d) \<Longrightarrow> within tables_same (query E stmt scan)"
  unfolding query_def by (intro same.within_rules same_run_sql)

text \<open>The session a statement meets; a statement when nobody else writes: it runs, or its connection fails.\<close>

definition session_of :: "'x env \<Rightarrow> 'x world \<Rightarrow> session" where
  "session_of E w = fst (e_session E (ext w))"

lemma alone_lawful: "alone E \<Longrightarrow> lawful E I"
  by (simp add: alone_def lawful_def)

lemma quiet_alone: "quiet E \<Longrightarrow> alone E"
  by (simp add: alone_def quiet_def)

lemma alone_run:
  assumes "alone E" and "run_sql E stmt w = Some (r, w')"
  obtains (ran) "r = fst (stmt (session_of E w) (db w))" "db w' = snd (stmt (session_of E w) (db w))"
      "s_fault (session_of E w) = NoFault"
    | (before) msg where "r = Inl (External msg)" "db w' = db w" "s_fault (session_of E w) = FaultBefore msg"
    | (after) msg where "r = Inl (External msg)" "db w' = snd (stmt (session_of E w) (db w))"
      "s_fault (session_of E w) = FaultAfter msg"
proof -
  obtain s x where s: "e_session E (ext w) = (s, x)" by fastforce
  then have "session_of E w = s" by (simp add: session_of_def)
  moreover have "s_interfere s = id" using assms(1) s unfolding alone_def by (metis fst_conv)
  ultimately show thesis
    using assms(2) s that by (cases "s_fault s") (auto simp: run_sql_def Let_def)
qed

lemma alone_query_row:
  assumes "alone E" and "query_row E stmt scan w = Some (r, w')"
  obtains (ran)
      "r = (case fst (stmt (session_of E w) (db w)) of Inl e \<Rightarrow> Inl e
          | Inr rows \<Rightarrow> (case rows of [] \<Rightarrow> Inl ErrNoRows | r # _ \<Rightarrow> scan r))"
      "db w' = snd (stmt (session_of E w) (db w))"
    | (before) msg where "r = Inl (External msg)" "db w' = db w" "s_fault (session_of E w) = FaultBefore msg"
    | (after) msg where "r = Inl (External msg)" "db w' = snd (stmt (session_of E w) (db w))"
      "s_fault (session_of E w) = FaultAfter msg"
proof -
  obtain q where q: "run_sql E stmt w = Some (q, w')"
      and r: "r = (case q of Inl e \<Rightarrow> Inl e | Inr rows \<Rightarrow> (case rows of [] \<Rightarrow> Inl ErrNoRows | r # _ \<Rightarrow> scan r))"
    using assms(2) by (auto simp: query_row_def call_Some_iff split: sum.splits)
  from assms(1) q show thesis
    by (cases rule: alone_run) (use that r in auto)
qed

text \<open>A statement that only reads leaves the tables, whether its connection fails or not.\<close>

lemma reads_run:
  "alone E \<Longrightarrow> (\<And>s d. snd (stmt s d) = d) \<Longrightarrow> within tables_same (run_sql E stmt)"
  unfolding within_def tables_same_def by (auto elim: alone_run)

lemma reads_query_row:
  "alone E \<Longrightarrow> (\<And>s d. snd (stmt s d) = d) \<Longrightarrow> within tables_same (query_row E stmt scan)"
  unfolding query_row_def by (intro same.within_rules reads_run)

lemma fails_before_no_after: "fails_before E \<Longrightarrow> s_fault (session_of E w) \<noteq> FaultAfter msg"
  by (simp add: fails_before_def session_of_def)

section \<open>Statements when nobody else writes\<close>

text \<open>The state after a statement, and what the three kinds of statements give.\<close>

definition after_sql :: "'x env \<Rightarrow> (session \<Rightarrow> database \<Rightarrow> 'r \<times> database) \<Rightarrow> 'x world \<Rightarrow> 'x world" where
  "after_sql E stmt w = \<lparr>db = snd (stmt (session_of E w) (db w)), ext = snd (e_session E (ext w))\<rparr>"

lemma quiet_run:
  "quiet E \<Longrightarrow> run_sql E stmt w = Some (fst (stmt (session_of E w) (db w)), after_sql E stmt w)"
  by (simp add: run_sql_quiet session_of_def after_sql_def Let_def)

lemma quiet_query_row:
  "quiet E \<Longrightarrow> query_row E stmt scan w =
    Some (case fst (stmt (session_of E w) (db w)) of
            Inl e \<Rightarrow> Inl e
          | Inr rows \<Rightarrow> (case rows of [] \<Rightarrow> Inl ErrNoRows | r # _ \<Rightarrow> scan r), after_sql E stmt w)"
  by (simp add: query_row_def call_def attempt_def quiet_run split: sum.split)

lemma quiet_query:
  "quiet E \<Longrightarrow> query E stmt scan w =
    Some (case fst (stmt (session_of E w) (db w)) of Inl e \<Rightarrow> Inl e | Inr rows \<Rightarrow> map_result scan rows, after_sql E stmt w)"
  by (simp add: query_def call_def attempt_def quiet_run split: sum.split)

lemma after_sql_db [simp]: "db (after_sql E stmt w) = snd (stmt (session_of E w) (db w))"
  by (simp add: after_sql_def)

lemma ext_value_run: "ext_value f w = Some (Inr (fst (f (ext w))), w\<lparr>ext := snd (f (ext w))\<rparr>)"
  by (simp add: ext_value_def split: prod.split)

lemma ext_call_run: "ext_call f w = Some (fst (f (ext w)), w\<lparr>ext := snd (f (ext w))\<rparr>)"
  by (simp add: ext_call_def split: prod.split)

lemmas quiet_runs = quiet_run quiet_query_row quiet_query ext_value_run ext_call_run

end
