(* ===== verification/Go_Strings.thy ===== *)
theory Go_Strings
  imports Prelude "HOL-Library.Sublist"
begin

text \<open>
  What the source uses of Go's \<open>strings\<close>, \<open>unicode\<close>, \<open>unicode/utf8\<close>, \<open>sort\<close> and
  \<open>encoding/hex\<close> packages, with the facts about it the components need.
\<close>

section \<open>Bytes, prefixes, trimming\<close>

definition bytes :: "string \<Rightarrow> nat list" where
  "bytes s = map of_char s"

definition cut_prefix :: "string \<Rightarrow> string \<Rightarrow> string option" where
  "cut_prefix s p = (if take (length p) s = p then Some (drop (length p) s) else None)"

definition has_prefix :: "string \<Rightarrow> string \<Rightarrow> bool" where
  "has_prefix s p \<longleftrightarrow> length p \<le> length s \<and> take (length p) s = p"

text \<open>\<open>s[:n]\<close>, which panics (\<open>None\<close>) when \<open>n\<close> is negative or past the end.\<close>

definition slice_to :: "string \<Rightarrow> int \<Rightarrow> string option" where
  "slice_to s n = (if 0 \<le> n \<and> n \<le> int (length s) then Some (take (nat n) s) else None)"

definition trim_right :: "string \<Rightarrow> char \<Rightarrow> string" where
  "trim_right s c = rev (dropWhile (\<lambda>x. x = c) (rev s))"

definition trim :: "string \<Rightarrow> char \<Rightarrow> string" where
  "trim s c = trim_right (dropWhile (\<lambda>x. x = c) s) c"

text \<open>\<open>strings.SplitN(s, sep, 2)\<close> for a separator of one byte.\<close>

definition split_two :: "string \<Rightarrow> char \<Rightarrow> string list" where
  "split_two s sep =
    (if sep \<in> set s then [takeWhile (\<lambda>c. c \<noteq> sep) s, tl (dropWhile (\<lambda>c. c \<noteq> sep) s)] else [s])"

text \<open>A \<open>strings.Replacer\<close> whose old strings are single bytes replaces every byte at once.\<close>

definition replace_bytes :: "(char \<rightharpoonup> string) \<Rightarrow> string \<Rightarrow> string" where
  "replace_bytes f s = concat (map (\<lambda>c. case f c of Some r \<Rightarrow> r | None \<Rightarrow> [c]) s)"

lemma cut_prefix_Some: "cut_prefix s p = Some t \<longleftrightarrow> s = p @ t"
  by (auto simp: cut_prefix_def) (metis append_take_drop_id)

lemma cut_prefix_append [simp]: "cut_prefix (p @ t) p = Some t"
  by (simp add: cut_prefix_Some)

lemma has_prefix_iff: "has_prefix s p \<longleftrightarrow> prefix p s"
  by (auto simp: has_prefix_def prefix_def) (metis append_take_drop_id)

lemma trim_right_prefix: "prefix (trim_right s c) s"
  unfolding trim_right_def suffix_to_prefix [symmetric]
  by (metis rev_rev_ident suffix_dropWhile suffix_to_prefix)

lemma set_trim_right: "set (trim_right s c) \<subseteq> set s"
  unfolding trim_right_def by (auto dest: set_dropWhileD)

lemma length_trim_right: "length (trim_right s c) \<le> length s"
  by (rule prefix_length_le [OF trim_right_prefix])

lemma set_trim: "set (trim s c) \<subseteq> set s"
  unfolding trim_def using set_trim_right by (fastforce dest: set_dropWhileD)

lemma trim_right_last: "trim_right s c \<noteq> [] \<Longrightarrow> last (trim_right s c) \<noteq> c"
  using hd_dropWhile [of "\<lambda>x. x = c" "rev s"]
  by (simp add: trim_right_def last_rev del: dropWhile_eq_Nil_conv)

lemma trim_right_eq_Nil: "trim_right s c = [] \<longleftrightarrow> (\<forall>x \<in> set s. x = c)"
  by (simp add: trim_right_def)

lemma trim_hd: "trim s c \<noteq> [] \<Longrightarrow> hd (trim s c) \<noteq> c"
proof -
  let ?t = "dropWhile (\<lambda>x. x = c) s"
  assume ne: "trim s c \<noteq> []"
  have "prefix (trim s c) ?t"
    unfolding trim_def by (rule trim_right_prefix)
  then obtain zs where zs: "?t = trim s c @ zs" by (rule prefixE)
  with ne have "?t \<noteq> []" and "hd (trim s c) = hd ?t"
    by (simp_all del: dropWhile_eq_Nil_conv)
  with hd_dropWhile [of "\<lambda>x. x = c" s] show ?thesis by simp
qed

lemma slice_to_Some: "slice_to s n = Some t \<longleftrightarrow> 0 \<le> n \<and> n \<le> int (length s) \<and> t = take (nat n) s"
  by (auto simp: slice_to_def)

section \<open>Runes\<close>

text \<open>
  \<open>for _, r := range s\<close>: UTF-8 decoding as \<open>utf8.DecodeRune\<close> does it. A byte that does not
  start a valid encoding is one rune U+FFFD of width one.
\<close>

definition rune_error :: rune where
  "rune_error = 0xFFFD"

definition continuation :: "nat \<Rightarrow> bool" where
  "continuation b \<longleftrightarrow> 0x80 \<le> b \<and> b \<le> 0xBF"

text \<open>The second byte's accepted range depends on the first (no overlong forms, no surrogates).\<close>

definition second_byte :: "nat \<Rightarrow> nat \<Rightarrow> bool" where
  "second_byte b0 b1 \<longleftrightarrow>
    (if b0 = 0xE0 then 0xA0 else if b0 = 0xF0 then 0x90 else 0x80) \<le> b1 \<and>
    b1 \<le> (if b0 = 0xED then 0x9F else if b0 = 0xF4 then 0x8F else 0xBF)"

text \<open>The rune that starts with byte \<open>b0\<close>, and how many of the following bytes it takes.\<close>

definition decode_rune :: "nat \<Rightarrow> nat list \<Rightarrow> rune \<times> nat" where
  "decode_rune b0 bs =
    (if b0 < 0x80 then (b0, 0)
     else if 0xC2 \<le> b0 \<and> b0 \<le> 0xDF then
       (case bs of b1 # _ \<Rightarrow>
          if continuation b1 then (b0 mod 32 * 64 + b1 mod 64, 1) else (rune_error, 0)
        | _ \<Rightarrow> (rune_error, 0))
     else if 0xE0 \<le> b0 \<and> b0 \<le> 0xEF then
       (case bs of b1 # b2 # _ \<Rightarrow>
          if second_byte b0 b1 \<and> continuation b2
          then (b0 mod 16 * 4096 + b1 mod 64 * 64 + b2 mod 64, 2) else (rune_error, 0)
        | _ \<Rightarrow> (rune_error, 0))
     else if 0xF0 \<le> b0 \<and> b0 \<le> 0xF4 then
       (case bs of b1 # b2 # b3 # _ \<Rightarrow>
          if second_byte b0 b1 \<and> continuation b2 \<and> continuation b3
          then (b0 mod 8 * 262144 + b1 mod 64 * 4096 + b2 mod 64 * 64 + b3 mod 64, 3)
          else (rune_error, 0)
        | _ \<Rightarrow> (rune_error, 0))
     else (rune_error, 0))"

fun runes :: "nat list \<Rightarrow> rune list" where
  "runes [] = []"
| "runes (b # bs) = fst (decode_rune b bs) # runes (drop (snd (decode_rune b bs)) bs)"

lemma runes_ascii: "\<forall>b \<in> set bs. b < 0x80 \<Longrightarrow> runes bs = bs"
  by (induction bs) (auto simp: decode_rune_def)

text \<open>
  \<open>unicode.ToLower\<close>. The source only asks whether a lowered rune is one of a few ASCII
  characters. Two runes outside ASCII lower to an ASCII letter, U+0130 and U+212A; every
  other one lowers to a rune outside ASCII, for which the rune itself stands here.
\<close>

definition to_lower :: "rune \<Rightarrow> rune" where
  "to_lower r =
    (if 65 \<le> r \<and> r \<le> 90 then r + 32
     else if r = 0x130 then 0x69
     else if r = 0x212A then 0x6B
     else r)"

text \<open>The runes of \<open>strings.ToLower(s)\<close>.\<close>

definition lower_runes :: "string \<Rightarrow> rune list" where
  "lower_runes s = map to_lower (runes (bytes s))"

lemma length_runes: "length (runes bs) \<le> length bs"
proof (induction bs rule: runes.induct)
  case (2 b bs)
  have "length (drop (snd (decode_rune b bs)) bs) \<le> length bs" by simp
  with 2 show ?case by (simp del: length_drop)
qed simp

section \<open>Sorting strings, hexadecimal\<close>

text \<open>\<open>sort.Strings\<close> orders by bytes, as the list order on \<^typ>\<open>string\<close> does.\<close>

definition sort_strings :: "string list \<Rightarrow> string list" where
  "sort_strings xs = sort xs"

lemma sort_strings_facts [simp]:
  "sorted (sort_strings xs)" "set (sort_strings xs) = set xs"
  "distinct (sort_strings xs) = distinct xs" "length (sort_strings xs) = length xs"
  by (simp_all add: sort_strings_def)

definition hex_char :: "nat \<Rightarrow> char" where
  "hex_char d = ''0123456789abcdef'' ! d"

text \<open>\<open>hex.EncodeToString\<close>.\<close>

definition hex_encode :: "8 word list \<Rightarrow> string" where
  "hex_encode bs = concat (map (\<lambda>b. [hex_char (unat b div 16), hex_char (unat b mod 16)]) bs)"

lemma length_hex_encode [simp]: "length (hex_encode bs) = 2 * length bs"
  by (induction bs) (auto simp: hex_encode_def)

lemma hex_char_in: "d < 16 \<Longrightarrow> hex_char d \<in> set ''0123456789abcdef''"
  unfolding hex_char_def by (rule nth_mem) simp

lemma hex_encode_chars: "set (hex_encode bs) \<subseteq> set ''0123456789abcdef''"
proof -
  have "unat b < 2 ^ LENGTH(8)" for b :: "8 word" by (rule unsigned_less)
  then have "unat b div 16 < 16" for b :: "8 word"
    by (simp add: less_mult_imp_div_less)
  then have "hex_char (unat b div 16) \<in> set ''0123456789abcdef''"
    and "hex_char (unat b mod 16) \<in> set ''0123456789abcdef''" for b :: "8 word"
    by (simp_all only: hex_char_in)
  then show ?thesis
    by (auto simp only: hex_encode_def set_concat set_map image_iff list.set) blast+
qed

end
