(* ===== verification/Sql_Text.thy ===== *)
theory Sql_Text
  imports Database Go_Strings
begin

text \<open>
  The two statements whose text the store builds at run time: \<open>UPDATE users SET ...\<close>
  (\<open>query_helpers.go\<close>) and the paged \<open>SELECT\<close> (\<open>pagination.go\<close>). This theory reads such a
  text as PostgreSQL does, with its numbered parameters, and runs it on the tables, so that the
  theories of the store can prove that the text they build means what it should.
\<close>

section \<open>Reading\<close>

text \<open>The text before and after the first occurrence of a separator.\<close>

fun cut :: "string \<Rightarrow> string \<Rightarrow> (string \<times> string) option" where
  "cut sep [] = None"
| "cut sep (c # s) =
    (if take (length sep) (c # s) = sep then Some ([], drop (length sep) (c # s))
     else map_option (\<lambda>p. (c # fst p, snd p)) (cut sep s))"

lemma cut_shorter: "cut sep s = Some (a, b) \<Longrightarrow> sep \<noteq> [] \<Longrightarrow> length b < length s"
proof (induction s arbitrary: a b)
  case (Cons c s)
  show ?case
  proof (cases "take (length sep) (c # s) = sep")
    case True
    with Cons.prems show ?thesis by (cases sep) auto
  next
    case False
    with Cons show ?thesis by fastforce
  qed
qed simp

text \<open>The pieces of a text between the occurrences of a separator; the separator is not empty.\<close>

function split_on :: "string \<Rightarrow> string \<Rightarrow> string list" where
  "split_on sep s =
    (if sep = [] then [s]
     else case cut sep s of None \<Rightarrow> [s] | Some p \<Rightarrow> fst p # split_on sep (snd p))"
  by auto
termination
  by (relation "measure (\<lambda>(sep, s). length s)") (auto intro: cut_shorter)

text \<open>A parameter number.\<close>

definition read_digit :: "char \<Rightarrow> nat option" where
  "read_digit c = (if CHR ''0'' \<le> c \<and> c \<le> CHR ''9'' then Some (of_char c - 48) else None)"

fun read_number :: "string \<Rightarrow> nat \<Rightarrow> nat option" where
  "read_number [] n = Some n"
| "read_number (c # s) n =
    (case read_digit c of None \<Rightarrow> None | Some d \<Rightarrow> read_number s (10 * n + d))"

datatype sql_expr = Param nat | Now

definition read_expr :: "string \<Rightarrow> sql_expr option" where
  "read_expr s =
    (if s = ''NOW()'' then Some Now
     else case s of [] \<Rightarrow> None
      | c # ds \<Rightarrow> if c = CHR ''$'' \<and> ds \<noteq> [] then map_option Param (read_number ds 0) else None)"

text \<open>All results of a list of readings, if every one succeeds.\<close>

fun all_some :: "'a option list \<Rightarrow> 'a list option" where
  "all_some [] = Some []"
| "all_some (x # xs) =
    (case x of None \<Rightarrow> None | Some y \<Rightarrow> map_option (\<lambda>ys. y # ys) (all_some xs))"

text \<open>\<open>UPDATE table SET column = expr, ... WHERE column = $n RETURNING columns\<close>.\<close>

datatype update_text =
  Update (up_table: string) (up_set: "(string \<times> sql_expr) list") (up_key: string) (up_key_param: nat)
    (up_returning: string)

definition read_assignment :: "string \<Rightarrow> (string \<times> sql_expr) option" where
  "read_assignment s =
    Option.bind (cut '' = '' s) (\<lambda>(column, e). map_option (Pair column) (read_expr e))"

definition read_update :: "string \<Rightarrow> update_text option" where
  "read_update s =
    Option.bind (cut_prefix s ''UPDATE '') (\<lambda>s.
    Option.bind (cut '' SET '' s) (\<lambda>(table, s).
    Option.bind (cut '' WHERE '' s) (\<lambda>(assignments, s).
    Option.bind (cut '' RETURNING '' s) (\<lambda>(condition, returning).
    Option.bind (cut '' = $'' condition) (\<lambda>(column, number).
    Option.bind (read_number number 0) (\<lambda>n.
    Option.bind (all_some (map read_assignment (split_on '', '' assignments))) (\<lambda>sets.
    Some (Update table sets column n returning))))))))"

text \<open>\<open>SELECT columns FROM table WHERE column op $n AND ... ORDER BY column ASC LIMIT $n\<close>.\<close>

datatype comparison = Equals | Greater

datatype select_text =
  Select (se_columns: string) (se_table: string) (se_where: "(string \<times> comparison \<times> nat) list")
    (se_order: string) (se_limit: nat)

definition read_condition :: "string \<Rightarrow> (string \<times> comparison \<times> nat) option" where
  "read_condition s =
    (case cut '' = $'' s of
       Some (column, n) \<Rightarrow> map_option (\<lambda>k. (column, Equals, k)) (read_number n 0)
     | None \<Rightarrow> Option.bind (cut '' > $'' s) (\<lambda>(column, n).
         map_option (\<lambda>k. (column, Greater, k)) (read_number n 0)))"

definition read_select :: "string \<Rightarrow> select_text option" where
  "read_select s =
    Option.bind (cut_prefix s ''SELECT '') (\<lambda>s.
    Option.bind (cut '' FROM '' s) (\<lambda>(columns, s).
    Option.bind (cut '' ORDER BY '' s) (\<lambda>(source, s).
    Option.bind (cut '' ASC LIMIT $'' s) (\<lambda>(order, number).
    Option.bind (read_number number 0) (\<lambda>n.
    (case cut '' WHERE '' source of
       None \<Rightarrow> Some (Select columns source [] order n)
     | Some (table, conditions) \<Rightarrow>
         map_option (\<lambda>cs. Select columns table cs order n)
           (all_some (map read_condition (split_on '' AND '' conditions)))))))))"

section \<open>Running\<close>

datatype sql_value = SqlText string | SqlUuid uuid | SqlInt int

text \<open>The value of parameter \<open>$n\<close>; parameters count from one.\<close>

definition param :: "sql_value list \<Rightarrow> nat \<Rightarrow> sql_value option" where
  "param args n = (if 1 \<le> n \<and> n \<le> length args then Some (args ! (n - 1)) else None)"

fun uuid_param :: "sql_value list \<Rightarrow> nat \<Rightarrow> uuid option" where
  "uuid_param args n = (case param args n of Some (SqlUuid u) \<Rightarrow> Some u | _ \<Rightarrow> None)"

text \<open>What PostgreSQL answers to a text it cannot run.\<close>

definition syntax_error :: go_err where
  "syntax_error = PgError ''42601'' []"

text \<open>One assignment to a column of \<open>users\<close>.\<close>

definition assign_user :: "time \<Rightarrow> sql_value list \<Rightarrow> string \<times> sql_expr \<Rightarrow> (user_row \<Rightarrow> user_row) option" where
  "assign_user now args a =
    (case a of (column, e) \<Rightarrow>
      (case e of
         Now \<Rightarrow> if column = ''updated_at'' then Some (\<lambda>r. r\<lparr>u_updated_at := now\<rparr>) else None
       | Param n \<Rightarrow>
          (case param args n of
             Some (SqlText v) \<Rightarrow>
               if column = ''name'' then Some (\<lambda>r. r\<lparr>u_name := v\<rparr>)
               else if column = ''email'' then Some (\<lambda>r. r\<lparr>u_email := v\<rparr>)
               else if column = ''nickname'' then Some (\<lambda>r. r\<lparr>u_nickname := v\<rparr>)
               else if column = ''username'' then Some (\<lambda>r. r\<lparr>u_username := Some v\<rparr>)
               else if column = ''photo_url'' then Some (\<lambda>r. r\<lparr>u_photo_url := v\<rparr>)
               else None
           | _ \<Rightarrow> None)))"

definition exec_update_users ::
  "string \<times> sql_value list \<Rightarrow> time \<Rightarrow> database \<Rightarrow> (go_err + user_row list) \<times> database" where
  "exec_update_users q now d =
    (case read_update (fst q) of
       Some (Update table sets key n returning) \<Rightarrow>
         (case (uuid_param (snd q) n, all_some (map (assign_user now (snd q)) sets)) of
            (Some i, Some fs) \<Rightarrow>
              if table = ''users'' \<and> key = ''identity_id''
              then sql_update_user (fold (\<lambda>f r. f r) fs) i d
              else (Inl syntax_error, d)
          | _ \<Rightarrow> (Inl syntax_error, d))
     | None \<Rightarrow> (Inl syntax_error, d))"

text \<open>
  A table as the paged \<open>SELECT\<close> sees it: its name, its rows and its columns of type \<open>UUID\<close>.
\<close>

record 'r table =
  tb_name :: string
  tb_rows :: "database \<Rightarrow> 'r list"
  tb_uuid :: "string \<Rightarrow> ('r \<Rightarrow> uuid) option"

definition users_table :: "user_row table" where
  "users_table = \<lparr>tb_name = ''users'', tb_rows = users,
    tb_uuid = (\<lambda>c. if c = ''identity_id'' then Some u_identity_id else None)\<rparr>"

definition devices_table :: "device_row table" where
  "devices_table = \<lparr>tb_name = ''user_devices'', tb_rows = user_devices,
    tb_uuid = (\<lambda>c. if c = ''id'' then Some d_id
                   else if c = ''identity_id'' then Some d_identity_id else None)\<rparr>"

definition condition_holds ::
  "'r table \<Rightarrow> sql_value list \<Rightarrow> string \<times> comparison \<times> nat \<Rightarrow> ('r \<Rightarrow> bool) option" where
  "condition_holds T args c =
    (case c of (column, op, n) \<Rightarrow>
      (case (tb_uuid T column, uuid_param args n) of
         (Some f, Some u) \<Rightarrow> Some (\<lambda>r. case op of Equals \<Rightarrow> f r = u | Greater \<Rightarrow> f r > u)
       | _ \<Rightarrow> None))"

definition exec_select ::
  "'r table \<Rightarrow> string \<times> sql_value list \<Rightarrow> database \<Rightarrow> (go_err + 'r list) \<times> database" where
  "exec_select T q d =
    (case read_select (fst q) of
       Some (Select columns table conditions order n) \<Rightarrow>
         (case (tb_uuid T order, all_some (map (condition_holds T (snd q)) conditions), param (snd q) n) of
            (Some key, Some ps, Some (SqlInt k)) \<Rightarrow>
              if table = tb_name T
              then (Inr (take (nat k) (sort_key key (filter (\<lambda>r. list_all (\<lambda>p. p r) ps) (tb_rows T d)))), d)
              else (Inl syntax_error, d)
          | _ \<Rightarrow> (Inl syntax_error, d))
     | None \<Rightarrow> (Inl syntax_error, d))"

lemma exec_select_unchanged [simp]: "snd (exec_select T q d) = d"
  by (simp add: exec_select_def split: option.split select_text.split sql_value.split)

text \<open>Whatever the text says, an \<open>UPDATE\<close> of users keeps the constraints.\<close>

lemma assign_user_keeps_id:
  "assign_user now args a = Some f \<Longrightarrow> u_identity_id (f r) = u_identity_id r"
  by (auto simp: assign_user_def split: prod.splits sql_expr.splits option.splits sql_value.splits if_splits)

lemma all_some_Some: "all_some xs = Some ys \<longleftrightarrow> xs = map Some ys"
  by (induction xs arbitrary: ys) (auto split: option.splits simp: Cons_eq_map_conv)

lemma fold_keeps: "(\<And>f r. f \<in> set fs \<Longrightarrow> p (f r) = p r) \<Longrightarrow> p (fold (\<lambda>f r. f r) fs r) = p r"
  by (induction fs arbitrary: r) auto

lemma schema_exec_update_users: "schema_ok d \<Longrightarrow> schema_ok (snd (exec_update_users q now d))"
proof -
  assume ok: "schema_ok d"
  have "schema_ok (snd (sql_update_user (fold (\<lambda>f r. f r) fs) i d))"
    if "all_some (map (assign_user now args) sets) = Some fs" for fs i args sets
  proof (rule schema_update_user [OF ok], rule fold_keeps)
    fix f r assume "f \<in> set fs"
    with that have "Some f \<in> set (map (assign_user now args) sets)" by (simp add: all_some_Some)
    then show "u_identity_id (f r) = u_identity_id r" by (auto dest!: sym [of "Some f"] assign_user_keeps_id)
  qed
  with ok show ?thesis
    by (auto simp: exec_update_users_def split: option.split update_text.split)
qed

end
