(* ===== verification/Query_Helpers.thy ===== *)
theory Query_Helpers
  imports Sql_Text
begin

text \<open>
  \<open>internal/store/query_helpers.go\<close>: the builder of \<open>UPDATE ... SET\<close> statements. The text and
  the arguments are built exactly as the code builds them; the facts say what PostgreSQL reads
  in that text: every added field gets its own value, \<open>updated_at\<close> the current time, and the
  row is chosen by the id.
\<close>

fun join :: "string \<Rightarrow> string list \<Rightarrow> string" where
  "join sep [] = []"
| "join sep [s] = s"
| "join sep (s # t # ss) = s @ sep @ join sep (t # ss)"

record update_builder =
  setClauses :: "string list"
  args :: "sql_value list"

definition updateBuilder :: update_builder where
  "updateBuilder = \<lparr>setClauses = [], args = []\<rparr>"

definition builder_add :: "update_builder \<Rightarrow> string \<Rightarrow> sql_value \<Rightarrow> update_builder" where
  "builder_add b field v =
    (let placeholder = length (args b) + 1
     in b\<lparr>setClauses := setClauses b @ [field @ '' = $'' @ decimal placeholder],
          args := args b @ [v]\<rparr>)"

definition builder_empty :: "update_builder \<Rightarrow> bool" where
  "builder_empty b \<longleftrightarrow> length (setClauses b) = 0"

definition buildUpdateQuery ::
  "string \<Rightarrow> string \<Rightarrow> string \<Rightarrow> string list \<Rightarrow> sql_value list \<Rightarrow> uuid \<Rightarrow> string \<times> sql_value list" where
  "buildUpdateQuery table returning idColumn clauses vs i =
    (let clauses' = clauses @ [''updated_at = NOW()''];
         vs' = vs @ [SqlUuid i]
     in (''UPDATE '' @ table @ '' SET '' @ join '', '' clauses' @ '' WHERE '' @ idColumn @ '' = $''
           @ decimal (length vs') @ '' RETURNING '' @ returning, vs'))"

definition builder_build ::
  "update_builder \<Rightarrow> string \<Rightarrow> string \<Rightarrow> string \<Rightarrow> uuid \<Rightarrow> string \<times> sql_value list" where
  "builder_build b table returning idColumn i =
    buildUpdateQuery table returning idColumn (setClauses b) (args b) i"

section \<open>What the text means\<close>

text \<open>
  The fields a builder was given, in the order of the calls: the builder after adding all of
  them, and the text it builds. The text depends on the names only.
\<close>

definition add_all :: "(string \<times> sql_value) list \<Rightarrow> update_builder" where
  "add_all fs = fold (\<lambda>(f, v) b. builder_add b f v) fs updateBuilder"

definition clause_text :: "nat \<Rightarrow> string \<Rightarrow> string" where
  "clause_text k field = field @ '' = $'' @ decimal k"

lemma add_all_snoc: "add_all (fs @ [f]) = builder_add (add_all fs) (fst f) (snd f)"
  by (simp add: add_all_def split: prod.split)

lemma add_all_eq:
  "setClauses (add_all fs) = map2 clause_text [1..<Suc (length fs)] (map fst fs)
    \<and> args (add_all fs) = map snd fs"
proof (induction fs rule: rev_induct)
  case Nil
  then show ?case by (simp add: add_all_def updateBuilder_def)
next
  case (snoc f fs)
  have "[1..<Suc (length (fs @ [f]))] = [1..<Suc (length fs)] @ [Suc (length fs)]" by simp
  moreover have "clause_text (Suc (length fs)) (fst f) = fst f @ '' = $'' @ decimal (length fs + 1)"
    by (simp add: clause_text_def)
  ultimately show ?case
    using snoc by (simp add: add_all_snoc builder_add_def Let_def del: upt_Suc append.simps)
qed

lemma build_args: "snd (builder_build (add_all fs) t r k i) = map snd fs @ [SqlUuid i]"
  by (simp add: builder_build_def buildUpdateQuery_def Let_def add_all_eq)

text \<open>The text with the given field names, for any values.\<close>

definition update_text :: "string list \<Rightarrow> string \<Rightarrow> string \<Rightarrow> string \<Rightarrow> string" where
  "update_text names table returning key =
    ''UPDATE '' @ table @ '' SET ''
      @ join '', '' (map2 clause_text [1..<Suc (length names)] names @ [''updated_at = NOW()''])
      @ '' WHERE '' @ key @ '' = $'' @ decimal (Suc (length names)) @ '' RETURNING '' @ returning"

lemma build_text: "fst (builder_build (add_all fs) t r k i) = update_text (map fst fs) t r k"
  by (simp add: builder_build_def buildUpdateQuery_def Let_def add_all_eq update_text_def)

section \<open>The store's updates of a user\<close>

definition userColumns :: string where
  "userColumns = ''identity_id, oidc_subject, name, email, nickname, username, photo_url, created_at, updated_at''"

text \<open>The five columns in the order \<open>UpdateUser\<close> adds them, each present or not.\<close>

definition chosen :: "bool \<Rightarrow> bool \<Rightarrow> bool \<Rightarrow> bool \<Rightarrow> bool \<Rightarrow> string list" where
  "chosen a b c d e =
    (if a then [''name''] else []) @ (if b then [''email''] else []) @ (if c then [''nickname''] else [])
      @ (if d then [''username''] else []) @ (if e then [''photo_url''] else [])"

text \<open>Every one of the 32 texts reads back as the assignments it was built from.\<close>

definition expected_update :: "string list \<Rightarrow> update_text" where
  "expected_update names =
    Update ''users'' (zip names (map Param [1..<Suc (length names)]) @ [(''updated_at'', Now)])
      ''identity_id'' (Suc (length names)) userColumns"

lemma read_chosen:
  "\<forall>a b c d e. read_update (update_text (chosen a b c d e) ''users'' userColumns ''identity_id'')
    = Some (expected_update (chosen a b c d e))"
  by code_simp

end
