(* ===== verification/Base64.thy ===== *)
theory Base64
  imports Go_Strings
begin

text \<open>
  \<open>encoding/base64\<close>: \<open>RawURLEncoding\<close>, the encoding without padding over the URL alphabet,
  on byte strings. The decoder skips carriage returns and line feeds, refuses every
  character outside the alphabet (the padding character too) and a lone last character, and
  does not look at the unused low bits of the last character, as Go's non-strict decoder.
\<close>

definition b64_alphabet :: string where
  "b64_alphabet = ''ABCDEFGHIJKLMNOPQRSTUVWXYZabcdefghijklmnopqrstuvwxyz0123456789-_''"

definition b64_char :: "nat \<Rightarrow> char" where
  "b64_char d = b64_alphabet ! d"

fun index_of :: "'a \<Rightarrow> 'a list \<Rightarrow> nat option" where
  "index_of x [] = None"
| "index_of x (y # ys) = (if x = y then Some 0 else map_option Suc (index_of x ys))"

definition b64_value :: "char \<Rightarrow> nat option" where
  "b64_value c = index_of c b64_alphabet"

text \<open>Three bytes are four digits of six bits; one byte left over is two digits, two are three.\<close>

fun b64_sextets :: "nat list \<Rightarrow> nat list" where
  "b64_sextets (a # b # c # bs) =
    a div 4 # (a mod 4 * 16 + b div 16) # (b mod 16 * 4 + c div 64) # c mod 64 # b64_sextets bs"
| "b64_sextets [a, b] = [a div 4, a mod 4 * 16 + b div 16, b mod 16 * 4]"
| "b64_sextets [a] = [a div 4, a mod 4 * 16]"
| "b64_sextets [] = []"

fun b64_octets :: "nat list \<Rightarrow> nat list option" where
  "b64_octets (w # x # y # z # ds) =
    map_option (\<lambda>bs. (w * 4 + x div 16) # (x mod 16 * 16 + y div 4) # (y mod 4 * 64 + z) # bs)
      (b64_octets ds)"
| "b64_octets [w, x, y] = Some [w * 4 + x div 16, x mod 16 * 16 + y div 4]"
| "b64_octets [w, x] = Some [w * 4 + x div 16]"
| "b64_octets [w] = None"
| "b64_octets [] = Some []"

definition b64_encode :: "string \<Rightarrow> string" where
  "b64_encode s = map b64_char (b64_sextets (bytes s))"

fun b64_digits :: "string \<Rightarrow> nat list option" where
  "b64_digits [] = Some []"
| "b64_digits (c # cs) =
    (if c = CHR 0x0A \<or> c = CHR 0x0D then b64_digits cs
     else (case b64_value c of None \<Rightarrow> None | Some d \<Rightarrow> map_option (\<lambda>ds. d # ds) (b64_digits cs)))"

definition b64_decode :: "string \<Rightarrow> string option" where
  "b64_decode s =
    (case b64_digits s of None \<Rightarrow> None
     | Some ds \<Rightarrow> map_option (map char_of) (b64_octets ds))"

section \<open>Round trip\<close>

lemma index_of_nth: "distinct xs \<Longrightarrow> i < length xs \<Longrightarrow> index_of (xs ! i) xs = Some i"
proof (induction xs arbitrary: i)
  case (Cons x xs)
  then show ?case by (cases i) auto
qed simp

lemma b64_value_char: "d < 64 \<Longrightarrow> b64_value (b64_char d) = Some d"
  unfolding b64_value_def b64_char_def by (rule index_of_nth) (simp_all add: b64_alphabet_def)

lemma b64_char_in: "d < 64 \<Longrightarrow> b64_char d \<in> set b64_alphabet"
  unfolding b64_char_def by (rule nth_mem) (simp add: b64_alphabet_def)

lemma b64_char_not_newline:
  assumes "d < 64" shows "b64_char d \<noteq> CHR 0x0A" and "b64_char d \<noteq> CHR 0x0D"
  using b64_char_in [OF assms] by (auto simp: b64_alphabet_def)

lemma b64_digits_map:
  "\<forall>d \<in> set ds. d < 64 \<Longrightarrow> b64_digits (map b64_char ds) = Some ds"
  by (induction ds) (auto simp: b64_value_char b64_char_not_newline)

lemma b64_sextets_less: "\<forall>b \<in> set bs. b < 256 \<Longrightarrow> \<forall>d \<in> set (b64_sextets bs). d < 64"
proof (induction bs rule: b64_sextets.induct)
  case (1 a b c bs)
  then have "a div 4 < 64" "a mod 4 * 16 + b div 16 < 64" "b mod 16 * 4 + c div 64 < 64"
    by auto
  with 1 show ?case by auto
qed auto

lemma b64_octets_sextets: "\<forall>b \<in> set bs. b < 256 \<Longrightarrow> b64_octets (b64_sextets bs) = Some bs"
proof (induction bs rule: b64_sextets.induct)
  case (1 a b c bs)
  then have abc: "a < 256" "b < 256" "c < 256" by auto
  have "a div 4 * 4 + (a mod 4 * 16 + b div 16) div 16 = a"
    and "(a mod 4 * 16 + b div 16) mod 16 * 16 + (b mod 16 * 4 + c div 64) div 4 = b"
    and "(b mod 16 * 4 + c div 64) mod 4 * 64 + c mod 64 = c"
    using abc by simp_all
  with 1 show ?case by simp
next
  case (2 a b)
  then have "a < 256" "b < 256" by auto
  then have "a div 4 * 4 + (a mod 4 * 16 + b div 16) div 16 = a"
    and "(a mod 4 * 16 + b div 16) mod 16 * 16 + b mod 16 * 4 div 4 = b"
    by simp_all
  then show ?case by simp
next
  case (3 a)
  then have "a div 4 * 4 + a mod 4 * 16 div 16 = a" by auto
  then show ?case by simp
qed simp

lemma bytes_less: "\<forall>b \<in> set (bytes s). b < 256"
  by (auto simp: bytes_def nat_of_char_less_256)

lemma map_char_of_bytes [simp]: "map char_of (bytes s) = s"
  by (simp add: bytes_def comp_def)

lemma b64_decode_encode: "b64_decode (b64_encode s) = Some s"
  using b64_digits_map [OF b64_sextets_less [OF bytes_less]] b64_octets_sextets [OF bytes_less]
  by (simp add: b64_decode_def b64_encode_def)

lemma b64_encode_eq_Nil: "b64_encode s = [] \<longleftrightarrow> s = []"
proof -
  have "b64_sextets bs = [] \<longleftrightarrow> bs = []" for bs
    by (cases bs rule: b64_sextets.cases) auto
  then show ?thesis by (simp add: b64_encode_def bytes_def)
qed

lemma b64_encode_chars: "set (b64_encode s) \<subseteq> set b64_alphabet"
  using b64_sextets_less [OF bytes_less, of s] b64_char_in
  unfolding b64_encode_def set_map by blast

section \<open>The interface of a text encoding\<close>

text \<open>
  What a client of a byte-string encoding relies on, and what follows for any value with a
  textual form of its own: the encoded text of different values differs, and decoding and
  parsing gives the value back.
\<close>

locale text_codec =
  fixes encode :: "string \<Rightarrow> string" and decode :: "string \<Rightarrow> string option"
  assumes codec_decode: "decode (encode s) = Some s"
begin

lemma codec_inj: "encode s = encode t \<Longrightarrow> s = t"
  by (metis codec_decode option.inject)

lemma codec_parse:
  "parse (print v) = Inr v \<Longrightarrow> (case decode (encode (print v)) of None \<Rightarrow> Inl e | Some s \<Rightarrow> parse s) = Inr v"
  by (simp add: codec_decode)

end

interpretation raw_url: text_codec b64_encode b64_decode
  by unfold_locales (rule b64_decode_encode)

end
