(* ===== verification/Pagination.thy ===== *)
theory Pagination
  imports Environment Query_Helpers Base64
begin

text \<open>
  \<open>internal/store/pagination.go\<close>: page sizes, page tokens and the generic paged query
  \<open>listEntities\<close>, whose SQL text is built here as the code builds it and read by \<open>Sql_Text\<close>.
  Facts: the page sizes is between 1 and 100, page tokens decode to the id they encode, a
  page's next cursor lies strictly after the page's own cursor whatever happens to the table
  meanwhile (so every paging loop ends), and the pages of a table nobody changes are, in order,
  all its rows.
\<close>

section \<open>Sizes and tokens\<close>

definition DefaultListPageSize :: int32 where "DefaultListPageSize = 50"
definition MaxListPageSize :: int32 where "MaxListPageSize = 100"

datatype page_cursor = PageCursor (AfterID: uuid)

definition NormalizePageSize :: "int32 \<Rightarrow> int32" where
  "NormalizePageSize sz =
    (if sint sz \<le> 0 then DefaultListPageSize
     else if sint sz > sint MaxListPageSize then MaxListPageSize
     else sz)"

definition EncodePageToken :: "'x env \<Rightarrow> uuid \<Rightarrow> string" where
  "EncodePageToken E i = b64_encode (e_uuid_string E i)"

definition DecodePageToken :: "'x env \<Rightarrow> string \<Rightarrow> go_err + uuid" where
  "DecodePageToken E token =
    (if token = [] then Inl (Errorf ''empty token'')
     else case b64_decode token of
       None \<Rightarrow> Inl (Wrap ''decode token'' (External ''illegal base64 data''))
     | Some decoded \<Rightarrow>
         (case e_uuid_parse E decoded of
            Inl e \<Rightarrow> Inl (Wrap ''parse token'' e)
          | Inr v \<Rightarrow> Inr v))"

text \<open>Cursors are ordered as their ids.\<close>

instantiation page_cursor :: linorder
begin

definition less_eq_page_cursor :: "page_cursor \<Rightarrow> page_cursor \<Rightarrow> bool" where
  "less_eq_page_cursor c d \<longleftrightarrow> AfterID c \<le> AfterID d"

definition less_page_cursor :: "page_cursor \<Rightarrow> page_cursor \<Rightarrow> bool" where
  "less_page_cursor c d \<longleftrightarrow> AfterID c < AfterID d"

instance
  by standard (auto simp: less_eq_page_cursor_def less_page_cursor_def page_cursor.expand)

end

text \<open>Whether an id is one a page with the given cursor may hold.\<close>

definition after_cursor :: "page_cursor option \<Rightarrow> uuid \<Rightarrow> bool" where
  "after_cursor cursor i \<longleftrightarrow> (case cursor of None \<Rightarrow> True | Some c \<Rightarrow> c < PageCursor i)"

section \<open>The paged query\<close>

definition list_query ::
  "string \<Rightarrow> string \<Rightarrow> string list \<Rightarrow> sql_value list \<Rightarrow> page_cursor option \<Rightarrow> int32
    \<Rightarrow> string \<times> sql_value list" where
  "list_query baseQuery cursorColumn clauses vs cursor limit =
    (let paramIndex = length vs + 1;
         clauses' = (case cursor of None \<Rightarrow> clauses
                     | Some c \<Rightarrow> clauses @ [cursorColumn @ '' > $'' @ decimal paramIndex]);
         vs' = (case cursor of None \<Rightarrow> vs | Some c \<Rightarrow> vs @ [SqlUuid (AfterID c)]);
         paramIndex' = (case cursor of None \<Rightarrow> paramIndex | Some c \<Rightarrow> paramIndex + 1)
     in (baseQuery
           @ (if length clauses' > 0 then '' WHERE '' @ join '' AND '' clauses' else [])
           @ '' ORDER BY '' @ cursorColumn @ '' ASC LIMIT $'' @ decimal paramIndex',
         vs' @ [SqlInt (sint limit + 1)]))"

text \<open>\<open>for rows.Next()\<close>: the items so far, the last id, and whether a row was left over.\<close>

fun list_rows ::
  "int32 \<Rightarrow> ('r \<Rightarrow> go_err + 't) \<Rightarrow> ('t \<Rightarrow> uuid) \<Rightarrow> 'r list \<Rightarrow> 't list \<Rightarrow> uuid
    \<Rightarrow> go_err + 't list \<times> uuid \<times> bool" where
  "list_rows limit scan idFunc [] items lastID = Inr (items, lastID, False)"
| "list_rows limit scan idFunc (r # rs) items lastID =
    (if of_nat (length items) = limit then Inr (items, lastID, True)
     else case scan r of
       Inl e \<Rightarrow> Inl e
     | Inr item \<Rightarrow> list_rows limit scan idFunc rs (items @ [item]) (idFunc item))"

definition listEntities ::
  "'x env \<Rightarrow> 'r table \<Rightarrow> string \<Rightarrow> string \<Rightarrow> string list \<Rightarrow> sql_value list \<Rightarrow> int32
    \<Rightarrow> ('r \<Rightarrow> go_err + 't) \<Rightarrow> ('t \<Rightarrow> uuid) \<Rightarrow> page_cursor option
    \<Rightarrow> ('x world, 't list \<times> page_cursor option) go" where
  "listEntities E T baseQuery cursorColumn clauses vs pageSize scan idFunc cursor =
    (let limit = NormalizePageSize pageSize
     in call (run_sql E (\<lambda>s. exec_select T (list_query baseQuery cursorColumn clauses vs cursor limit))) id
          (\<lambda>rows.
        lift (case list_rows limit scan idFunc rows [] 0 of
                Inl e \<Rightarrow> Inl e
              | Inr (items, lastID, hasMore) \<Rightarrow>
                  Inr (items, if hasMore then Some (PageCursor lastID) else None))))"

section \<open>Page sizes\<close>

lemma normalize_bounds: "1 \<le> sint (NormalizePageSize sz) \<and> sint (NormalizePageSize sz) \<le> 100"
  by (simp add: NormalizePageSize_def DefaultListPageSize_def MaxListPageSize_def)

definition page_limit :: "int32 \<Rightarrow> nat" where
  "page_limit sz = nat (sint (NormalizePageSize sz))"

lemma page_limit_bounds: "1 \<le> page_limit sz" "page_limit sz \<le> 100"
  using normalize_bounds [of sz] by (auto simp: page_limit_def nat_le_iff Suc_le_eq)

lemma of_nat_page_limit: "n \<le> 100 \<Longrightarrow> (of_nat n :: int32) = NormalizePageSize sz \<longleftrightarrow> n = page_limit sz"
proof -
  assume n: "n \<le> 100"
  have "sint (of_nat n :: int32) = int n"
    using n by (simp add: signed_of_nat signed_take_bit_int_eq_self)
  moreover have "(of_nat n :: int32) = NormalizePageSize sz
      \<longleftrightarrow> sint (of_nat n :: int32) = sint (NormalizePageSize sz)"
    by (metis signed_word_eqI)
  ultimately show ?thesis
    using normalize_bounds [of sz] by (auto simp: page_limit_def)
qed

section \<open>What a page holds\<close>

text \<open>The loop's result when no row fails to scan, from any point of the loop.\<close>

lemma list_rows_Inr:
  assumes "length items \<le> page_limit sz"
    and "list_rows (NormalizePageSize sz) scan idFunc rows items last0 = Inr (items', lastID, hasMore)"
  defines "n \<equiv> page_limit sz - length items"
  shows "\<exists>new. items' = items @ new \<and> list_all2 (\<lambda>r x. scan r = Inr x) (take n rows) new
    \<and> (hasMore \<longleftrightarrow> n < length rows) \<and> lastID = (if new = [] then last0 else idFunc (last new))"
  using assms(1,2) unfolding n_def
proof (induction rows arbitrary: items last0)
  case Nil
  then show ?case by auto
next
  case (Cons r rs)
  have full: "(of_nat (length items) :: int32) = NormalizePageSize sz \<longleftrightarrow> length items = page_limit sz"
    using Cons.prems(1) page_limit_bounds(2) [of sz] by (intro of_nat_page_limit) linarith
  show ?case
  proof (cases "length items = page_limit sz")
    case True
    with Cons.prems(2) full show ?thesis by simp
  next
    case False
    with Cons.prems full obtain x where x: "scan r = Inr x"
      and rec: "list_rows (NormalizePageSize sz) scan idFunc rs (items @ [x]) (idFunc x) = Inr (items', lastID, hasMore)"
      by (auto split: sum.splits)
    have less: "length (items @ [x]) \<le> page_limit sz" using False Cons.prems(1) by simp
    obtain new where "items' = (items @ [x]) @ new"
      and "list_all2 (\<lambda>r x. scan r = Inr x) (take (page_limit sz - length (items @ [x])) rs) new"
      and "hasMore \<longleftrightarrow> page_limit sz - length (items @ [x]) < length rs"
      and "lastID = (if new = [] then idFunc x else idFunc (last new))"
      using Cons.IH [OF less rec] by blast
    moreover have "page_limit sz - length items = Suc (page_limit sz - length (items @ [x]))"
      using less by simp
    ultimately show ?thesis using x by (intro exI [of _ "x # new"]) auto
  qed
qed

lemma list_rows_page:
  assumes "list_rows (NormalizePageSize sz) scan idFunc rows [] last0 = Inr (items, lastID, hasMore)"
  shows "list_all2 (\<lambda>r x. scan r = Inr x) (take (page_limit sz) rows) items"
    and "hasMore \<longleftrightarrow> page_limit sz < length rows"
    and "hasMore \<Longrightarrow> items \<noteq> [] \<and> lastID = idFunc (last items)"
proof -
  obtain new where new: "items = new" "list_all2 (\<lambda>r x. scan r = Inr x) (take (page_limit sz) rows) new"
      "hasMore \<longleftrightarrow> page_limit sz < length rows" "lastID = (if new = [] then last0 else idFunc (last new))"
    using list_rows_Inr [of "[]", OF _ assms] by auto
  then show "list_all2 (\<lambda>r x. scan r = Inr x) (take (page_limit sz) rows) items"
    and "hasMore \<longleftrightarrow> page_limit sz < length rows" by auto
  assume hasMore
  with new have "take (page_limit sz) rows \<noteq> []" using page_limit_bounds(1) [of sz] by auto
  with new show "items \<noteq> [] \<and> lastID = idFunc (last items)" by auto
qed

lemma returns_listEntities [returns_intro]:
  "returns (listEntities E T b c cl vs sz scan idFunc cursor)"
  unfolding listEntities_def Let_def by (intro returns_intro)

section \<open>The interface of a paged listing\<close>

text \<open>
  What the paging loops rely on: a page can be fetched from every cursor, and its next cursor
  has less left than the cursor it was fetched from. Then the loop ends, however the table
  changes between two pages.
\<close>

lemma page_loop_run [code]:
  "page_loop fetch wrap body acc c w =
    (case fetch c w of
       None \<Rightarrow> None
     | Some (Inl e, w1) \<Rightarrow> Some (Inl (wrap e), w1)
     | Some (Inr (xs, n), w1) \<Rightarrow>
        (case body acc xs w1 of
           None \<Rightarrow> None
         | Some (Inl e, w2) \<Rightarrow> Some (Inl e, w2)
         | Some (Inr acc', w2) \<Rightarrow>
            (case n of None \<Rightarrow> Some (Inr acc', w2)
             | Some c' \<Rightarrow> page_loop fetch wrap body acc' (Some c') w2)))"
  by (subst page_loop.simps) (simp add: call_def attempt_def split: option.split sum.split prod.split)

lemma page_loop_Some:
  assumes "page_loop fetch wrap body acc c w = Some (r, w')"
  obtains (fetch) e where "fetch c w = Some (Inl e, w')" "r = Inl (wrap e)"
    | (body) xs n w1 e where "fetch c w = Some (Inr (xs, n), w1)" "body acc xs w1 = Some (Inl e, w')" "r = Inl e"
    | (last) xs w1 acc' where "fetch c w = Some (Inr (xs, None), w1)" "body acc xs w1 = Some (Inr acc', w')" "r = Inr acc'"
    | (more) xs c' w1 acc' w2 where "fetch c w = Some (Inr (xs, Some c'), w1)" "body acc xs w1 = Some (Inr acc', w2)"
        "page_loop fetch wrap body acc' (Some c') w2 = Some (r, w')"
proof -
  obtain f w1 where f: "fetch c w = Some (f, w1)"
    using assms by (cases "fetch c w") (auto simp: page_loop_run)
  show thesis
  proof (cases f)
    case (Inl e)
    with f assms show thesis by (intro that(1) [of e]) (simp_all add: page_loop_run)
  next
    case (Inr page)
    obtain xs n where f': "fetch c w = Some (Inr (xs, n), w1)" using f Inr by (cases page) auto
    obtain b w2 where b: "body acc xs w1 = Some (b, w2)"
      using assms f' by (cases "body acc xs w1") (auto simp: page_loop_run)
    show thesis
    proof (cases b)
      case (Inl e)
      with f' b assms show thesis by (intro that(2) [of xs n w1 e]) (simp_all add: page_loop_run)
    next
      case (Inr acc')
      have run: "(case n of None \<Rightarrow> Some (Inr acc', w2)
          | Some c' \<Rightarrow> page_loop fetch wrap body acc' (Some c') w2) = Some (r, w')"
        using assms f' b Inr by (subst (asm) page_loop_run) simp
      show thesis
        by (cases n) (use run f' b Inr that(3,4) in auto)
    qed
  qed
qed

text \<open>Whether or not the loop ends, what it changes is what its steps change.\<close>

lemma within_page_loop:
  assumes "state_preorder R" and fetch: "\<And>c. within R (fetch c)"
    and body: "\<And>acc xs. within R (body acc xs)"
  shows "within R (page_loop fetch wrap body acc c)"
proof -
  have tr: "R u v \<Longrightarrow> R v x \<Longrightarrow> R u x" for u v x
    using assms(1) by (rule state_preorder.preorder_trans)
  have R: "fetch c v = Some (x, v') \<Longrightarrow> R v v'" "body a xs v = Some (y, v') \<Longrightarrow> R v v'" for a xs x y v v' c
    using fetch body by (auto simp: within_def)
  have "fetch = fetch \<longrightarrow> body = body \<longrightarrow> R w (snd p)"
    if "page_loop fetch wrap body acc c w = Some p" for w p
  proof (rule page_loop.raw_induct [where P = "\<lambda>fetch' wrap' body' acc c w p.
      fetch' = fetch \<longrightarrow> body' = body \<longrightarrow> R w (snd p)", OF _ that], intro impI)
    fix loop fetch' wrap' body' acc c w p
    assume IH: "\<And>wrap body' acc cursor w b y. loop wrap body' acc cursor w b = Some y
          \<Longrightarrow> wrap = fetch \<longrightarrow> acc = body \<longrightarrow> R b (snd y)"
      and run: "call (fetch' c) wrap' (\<lambda>page. call (body' acc (fst page)) id (\<lambda>acc' w'.
          case snd page of None \<Rightarrow> ret acc' w' | Some next \<Rightarrow> loop fetch' wrap' body' acc' (Some next) w')) w = Some p"
      and eq: "fetch' = fetch" "body' = body"
    obtain r w' where p: "p = (r, w')" by fastforce
    from run show "R w (snd p)"
      unfolding p eq call_Some_iff
      by (auto dest!: R IH split: option.splits) (meson tr)+
  qed
  then show ?thesis by (auto simp: within_def)
qed

locale page_source =
  fixes fetch :: "'c option \<Rightarrow> ('w, 'a list \<times> 'c option) go"
    and left :: "'c option \<Rightarrow> nat"
  assumes fetch_returns: "returns (fetch c)"
    and fetch_advances: "fetch c w = Some (Inr (xs, Some c'), w') \<Longrightarrow> left (Some c') < left c"
begin

lemma loop_returns:
  assumes body: "\<And>acc xs. returns (body acc xs)"
  shows "returns (page_loop fetch wrap body acc c)"
proof -
  have "page_loop fetch wrap body acc c w \<noteq> None" for acc w
  proof (induction "left c" arbitrary: c acc w rule: less_induct)
    case less
    obtain r w1 where f: "fetch c w = Some (r, w1)" using returnsD [OF fetch_returns] by blast
    show ?case
    proof (cases r)
      case (Inl e)
      then show ?thesis by (subst page_loop_run) (simp add: f)
    next
      case (Inr page)
      obtain xs n where page: "page = (xs, n)" by fastforce
      obtain r2 w2 where b: "body acc xs w1 = Some (r2, w2)" using returnsD [OF body] by blast
      have "page_loop fetch wrap body acc' (Some c') w2 \<noteq> None" if "n = Some c'" for c' acc'
        by (rule less, rule fetch_advances) (use f Inr page that in simp)
      then show ?thesis
        by (subst page_loop_run) (cases r2; cases n; simp add: f Inr page b)
    qed
  qed
  then show ?thesis by (simp add: returns_def)
qed

end

text \<open>
  The same with a view of what the listing holds from a cursor on, in states where nothing
  else changes it (\<open>ok\<close>): a page is the start of the view and its next cursor stands for the rest.
  Then the loop works on all the items, in order, each once.
\<close>

locale page_listing = page_source +
  fixes view :: "'w \<Rightarrow> 'c option \<Rightarrow> 'a list" and ok :: "'w \<Rightarrow> bool"
  assumes fetch_ok: "ok w \<Longrightarrow> fetch c w = Some (r, w') \<Longrightarrow> ok w' \<and> view w' = view w"
    and fetch_view: "ok w \<Longrightarrow> fetch c w = Some (Inr (xs, n), w')
      \<Longrightarrow> view w c = xs @ (case n of None \<Rightarrow> [] | Some c' \<Rightarrow> view w (Some c'))"
begin

lemma loop_induct:
  assumes fetched: "\<And>items acc w c r w'. P items acc w \<Longrightarrow> fetch c w = Some (r, w') \<Longrightarrow> P items acc w'"
    and body: "\<And>items acc xs w acc' w'. P items acc w \<Longrightarrow> ok w \<Longrightarrow> body acc xs w = Some (Inr acc', w')
      \<Longrightarrow> P (items @ xs) acc' w' \<and> ok w' \<and> view w' = view w"
  shows "page_loop fetch wrap body acc c w = Some (Inr acc', w') \<Longrightarrow> ok w \<Longrightarrow> P items acc w
    \<Longrightarrow> P (items @ view w c) acc' w'"
proof (induction "left c" arbitrary: c acc w items rule: less_induct)
  case less
  from less.prems(1) obtain xs n w1 acc1 w2 where f: "fetch c w = Some (Inr (xs, n), w1)"
      and b: "body acc xs w1 = Some (Inr acc1, w2)"
      and rest: "case n of None \<Rightarrow> acc1 = acc' \<and> w2 = w'
        | Some c' \<Rightarrow> page_loop fetch wrap body acc1 (Some c') w2 = Some (Inr acc', w')"
    by (cases rule: page_loop_Some) auto
  have ok1: "ok w1" "view w1 = view w" using fetch_ok [OF less.prems(2) f] by auto
  have P2: "P (items @ xs) acc1 w2" "ok w2" "view w2 = view w"
    using body [OF fetched [OF less.prems(3) f] ok1(1) b] ok1 by auto
  have v: "view w c = xs @ (case n of None \<Rightarrow> [] | Some c' \<Rightarrow> view w (Some c'))"
    by (rule fetch_view [OF less.prems(2) f])
  show ?case
  proof (cases n)
    case None
    with rest v P2 show ?thesis by simp
  next
    case (Some c')
    have "P ((items @ xs) @ view w2 (Some c')) acc' w'"
      by (rule less.hyps [OF fetch_advances]) (use f Some rest P2 in auto)
    with v Some P2 show ?thesis by simp
  qed
qed

lemma loop_collects:
  assumes "page_loop fetch wrap (\<lambda>acc xs. ret (acc @ xs)) acc c w = Some (Inr ys, w')" and "ok w"
  shows "ys = acc @ view w c"
  using loop_induct [where P = "\<lambda>items acc' w. acc' = acc @ items" and items = "[]", OF _ _ assms]
  by auto

end

section \<open>Pages of a table\<close>

text \<open>The rows a page is taken from: those that match, after the cursor, in the order of their ids.\<close>

definition rows_after ::
  "'r table \<Rightarrow> ('r \<Rightarrow> uuid) \<Rightarrow> ('r \<Rightarrow> bool) \<Rightarrow> database \<Rightarrow> page_cursor option \<Rightarrow> 'r list" where
  "rows_after T key keep d cursor =
    sort_key key (filter (\<lambda>r. keep r \<and> after_cursor cursor (key r)) (tb_rows T d))"

lemma after_cursor_Some [simp]: "after_cursor (Some c) i \<longleftrightarrow> AfterID c < i"
  by (simp add: after_cursor_def less_page_cursor_def)

lemma after_cursor_None [simp]: "after_cursor None i"
  by (simp add: after_cursor_def)

text \<open>In a list sorted by distinct keys, what lies after the \<open>n\<close>th element is the rest of the list.\<close>

lemma filter_greater_drop:
  assumes "sorted_wrt (\<lambda>a b. key a < key b) xs" and "0 < n" and "n \<le> length xs"
  shows "filter (\<lambda>r. key (xs ! (n - 1)) < (key r :: 'k :: linorder)) xs = drop n xs"
proof -
  have before: "key r \<le> key (xs ! (n - 1))" if r: "r \<in> set (take n xs)" for r
  proof -
    obtain i where i: "i < n" "r = xs ! i" using r by (auto simp: in_set_conv_nth)
    then show ?thesis
    proof (cases "i = n - 1")
      case False
      with i have "i < n - 1" by linarith
      moreover have "n - 1 < length xs" using assms(2,3) by linarith
      ultimately have "key (xs ! i) < key (xs ! (n - 1))" by (rule sorted_wrt_nth_less [OF assms(1)])
      with i show ?thesis by simp
    qed simp
  qed
  have later: "key (xs ! (n - 1)) < key r" if r: "r \<in> set (drop n xs)" for r
  proof -
    obtain i where i: "n + i < length xs" "r = xs ! (n + i)"
      using r by (fastforce simp: in_set_conv_nth less_diff_conv add.commute)
    moreover have "n - 1 < n + i" using assms(2) by linarith
    ultimately show ?thesis using sorted_wrt_nth_less [OF assms(1)] by simp
  qed
  have "filter (\<lambda>r. key (xs ! (n - 1)) < key r) (take n xs @ drop n xs) = drop n xs"
    unfolding filter_append using before later by (fastforce simp: filter_empty_conv filter_id_conv)
  then show ?thesis by simp
qed

lemma sorted_distinct_keys:
  "distinct (map key xs) \<Longrightarrow> sorted_wrt (\<lambda>a b. key a < (key b :: 'k :: linorder)) (sort_key key xs)"
proof -
  assume "distinct (map key xs)"
  then have "distinct (map key (sort_key key xs))"
    by (metis distinct_map distinct_sort set_sort)
  moreover have "sorted (map key (sort_key key xs))" by simp
  ultimately have "sorted_wrt (<) (map key (sort_key key xs))"
    by (simp add: strict_sorted_iff)
  then show ?thesis by (simp add: sorted_wrt_map)
qed

lemma rows_after_next:
  assumes "distinct (map key (filter keep (tb_rows T d)))"
    and "0 < n" and "n \<le> length (rows_after T key keep d cursor)"
  shows "rows_after T key keep d (Some (PageCursor (key (rows_after T key keep d cursor ! (n - 1)))))
    = drop n (rows_after T key keep d cursor)"
proof -
  let ?S = "rows_after T key keep d cursor" and ?k = "key (rows_after T key keep d cursor ! (n - 1))"
  let ?rows = "filter (\<lambda>r. keep r \<and> after_cursor cursor (key r)) (tb_rows T d)"
  have "distinct (map key ?rows)"
    using distinct_map_filter [OF assms(1), of "\<lambda>r. after_cursor cursor (key r)"]
    by (simp add: conj_commute)
  then have sorted: "sorted_wrt (\<lambda>a b. key a < key b) ?S"
    unfolding rows_after_def by (rule sorted_distinct_keys)
  have "?S ! (n - 1) \<in> set ?S" using assms(2,3) by (intro nth_mem) simp
  then have k: "after_cursor cursor ?k" by (simp add: rows_after_def)
  have "filter (\<lambda>r. keep r \<and> ?k < key r) (tb_rows T d) = filter (\<lambda>r. ?k < key r) ?rows"
    using k by (auto simp: after_cursor_def less_page_cursor_def split: option.splits intro!: filter_cong)
  then have "rows_after T key keep d (Some (PageCursor ?k)) = filter (\<lambda>r. ?k < key r) ?S"
    unfolding rows_after_def by (simp add: filter_sort)
  also have "\<dots> = drop n ?S"
    using sorted assms(2,3) by (rule filter_greater_drop)
  finally show ?thesis .
qed

text \<open>How many ids lie after a cursor; it bounds the pages still to come.\<close>

definition cursor_left :: "page_cursor option \<Rightarrow> nat" where
  "cursor_left cursor = (case cursor of None \<Rightarrow> 2 ^ 128 | Some c \<Rightarrow> 2 ^ 128 - 1 - unat (AfterID c))"

lemma cursor_left_decreases: "after_cursor cursor i \<Longrightarrow> cursor_left (Some (PageCursor i)) < cursor_left cursor"
proof -
  have less: "unat (u :: uuid) < 2 ^ 128" for u using unsigned_less [of u] by simp
  assume "after_cursor cursor i"
  then show ?thesis
    using less [of i] less [of "AfterID (the cursor)"]
    by (cases cursor) (auto simp: cursor_left_def word_less_nat_alt)
qed

text \<open>
  The interface of a paged query: its text means the rows after the cursor in the order of their ids,
  one more than the page holds; scanning keeps the id; and the ids are distinct under the constraints.
\<close>

locale paged_table =
  fixes E :: "'x env" and T :: "'r table" and baseQuery cursorColumn :: string
    and clauses :: "string list" and vs :: "sql_value list" and sz :: int32
    and scan :: "'r \<Rightarrow> go_err + 't" and idFunc :: "'t \<Rightarrow> uuid"
    and key :: "'r \<Rightarrow> uuid" and keep :: "'r \<Rightarrow> bool"
  assumes query_means: "exec_select T (list_query baseQuery cursorColumn clauses vs cursor limit) d
      = (Inr (take (nat (sint limit + 1)) (rows_after T key keep d cursor)), d)"
    and scan_id: "scan r = Inr x \<Longrightarrow> idFunc x = key r"
    and key_distinct: "schema_ok d \<Longrightarrow> distinct (map key (filter keep (tb_rows T d)))"
begin

text \<open>What a successful fetch says, for the tables \<open>d\<close> the query ran on.\<close>

lemma fetch_Inr:
  assumes "listEntities E T baseQuery cursorColumn clauses vs sz scan idFunc cursor w = Some (Inr (items, n), w')"
  obtains d where "run_sql E (\<lambda>s d. (Inr d, d)) w = Some (Inr d, w')" and "db w' = d"
    and "list_all2 (\<lambda>r x. scan r = Inr x) (take (page_limit sz) (rows_after T key keep d cursor)) items"
    and "n = (if page_limit sz < length (rows_after T key keep d cursor)
              then Some (PageCursor (key (rows_after T key keep d cursor ! (page_limit sz - 1)))) else None)"
proof -
  let ?limit = "NormalizePageSize sz" and ?S = "\<lambda>d. rows_after T key keep d cursor"
  obtain rows w1 where q: "run_sql E (\<lambda>s. exec_select T (list_query baseQuery cursorColumn clauses vs cursor ?limit)) w
        = Some (Inr rows, w1)" "w' = w1"
      and res: "(case list_rows ?limit scan idFunc rows [] 0 of Inl e \<Rightarrow> Inl e
        | Inr (items, lastID, hasMore) \<Rightarrow> Inr (items, if hasMore then Some (PageCursor lastID) else None))
        = Inr (items, n)"
    using assms by (auto simp: listEntities_def Let_def call_Inr_iff)
  from q have rows: "rows = take (nat (sint ?limit + 1)) (?S (db w'))"
      and run: "run_sql E (\<lambda>s d. (Inr d, d)) w = Some (Inr (db w'), w')"
    by (auto simp: run_sql_def query_means Let_def split: prod.splits fault.splits)
  have "nat (sint ?limit + 1) = Suc (page_limit sz)"
    using normalize_bounds [of sz] by (simp add: page_limit_def Suc_nat_eq_nat_zadd1)
  with rows have rows: "rows = take (Suc (page_limit sz)) (?S (db w'))" by simp
  obtain lastID hasMore where l: "list_rows ?limit scan idFunc rows [] 0 = Inr (items, lastID, hasMore)"
      and n: "n = (if hasMore then Some (PageCursor lastID) else None)"
    using res by (auto split: sum.splits)
  have all: "list_all2 (\<lambda>r x. scan r = Inr x) (take (page_limit sz) (?S (db w'))) items"
    using list_rows_page(1) [OF l] by (simp add: rows min_def)
  have more: "hasMore \<longleftrightarrow> page_limit sz < length (?S (db w'))"
    using list_rows_page(2) [OF l] by (auto simp: rows)
  have "lastID = key (?S (db w') ! (page_limit sz - 1))" if hasMore
  proof -
    have len: "length items = page_limit sz" using all that more by (auto dest: list_all2_lengthD)
    have "scan (?S (db w') ! (page_limit sz - 1)) = Inr (items ! (page_limit sz - 1))"
      using list_all2_nthD2 [OF all, of "page_limit sz - 1"] len page_limit_bounds(1) [of sz] by simp
    then show ?thesis
      using list_rows_page(3) [OF l that] len by (simp add: scan_id last_conv_nth)
  qed
  with n more have n': "n = (if page_limit sz < length (?S (db w'))
      then Some (PageCursor (key (?S (db w') ! (page_limit sz - 1)))) else None)" by auto
  show thesis by (rule that [OF run refl all n'])
qed

text \<open>A page in a state nothing else changes, and the cursor's progress in any.\<close>

lemma next_after_cursor:
  assumes "listEntities E T baseQuery cursorColumn clauses vs sz scan idFunc cursor w
      = Some (Inr (items, Some c), w')"
  shows "after_cursor cursor (AfterID c)"
proof -
  obtain d where c: "Some c = (if page_limit sz < length (rows_after T key keep d cursor)
      then Some (PageCursor (key (rows_after T key keep d cursor ! (page_limit sz - 1)))) else None)"
    using assms by (rule fetch_Inr)
  then have "rows_after T key keep d cursor ! (page_limit sz - 1) \<in> set (rows_after T key keep d cursor)"
    using page_limit_bounds(1) [of sz] by (intro nth_mem) (auto split: if_splits)
  with c show ?thesis by (auto simp: rows_after_def split: if_splits)
qed

lemma same_fetch:
  "quiet E \<Longrightarrow> within tables_same (listEntities E T baseQuery cursorColumn clauses vs sz scan idFunc cursor)"
  unfolding listEntities_def Let_def by (intro same.within_rules same_run_sql) simp_all

lemma kept_fetch:
  "lawful E I \<Longrightarrow> within (keeps I) (listEntities E T baseQuery cursorColumn clauses vs sz scan idFunc cursor)"
  unfolding listEntities_def Let_def by (intro kept.within_rules kept_run_sql) simp_all

lemma quiet_page:
  assumes "quiet E" and "schema_ok (db w)"
    and "listEntities E T baseQuery cursorColumn clauses vs sz scan idFunc cursor w = Some (Inr (items, n), w')"
  shows "map (\<lambda>r. projr (scan r)) (rows_after T key keep (db w) cursor)
    = items @ (case n of None \<Rightarrow> [] | Some c \<Rightarrow> map (\<lambda>r. projr (scan r)) (rows_after T key keep (db w) (Some c)))"
proof -
  let ?S = "rows_after T key keep (db w) cursor"
  obtain d where "db w' = d"
    and all: "list_all2 (\<lambda>r x. scan r = Inr x) (take (page_limit sz) (rows_after T key keep d cursor)) items"
    and n: "n = (if page_limit sz < length (rows_after T key keep d cursor)
          then Some (PageCursor (key (rows_after T key keep d cursor ! (page_limit sz - 1)))) else None)"
    using assms(3) by (rule fetch_Inr)
  moreover have "db w' = db w"
    using same_fetch [OF assms(1)] assms(3) by (auto simp: within_def tables_same_def)
  ultimately have all: "list_all2 (\<lambda>r x. scan r = Inr x) (take (page_limit sz) ?S) items"
    and n: "n = (if page_limit sz < length ?S then Some (PageCursor (key (?S ! (page_limit sz - 1)))) else None)"
    by auto
  have items: "map (\<lambda>r. projr (scan r)) (take (page_limit sz) ?S) = items"
    using all by (induction rule: list_all2_induct) auto
  show ?thesis
  proof (cases "page_limit sz < length ?S")
    case True
    have "rows_after T key keep (db w) n = drop (page_limit sz) ?S"
      using rows_after_next [OF key_distinct [OF assms(2)], of "page_limit sz" cursor] True
        page_limit_bounds(1) [of sz] by (simp add: n)
    moreover have "map (\<lambda>r. projr (scan r)) ?S
        = items @ map (\<lambda>r. projr (scan r)) (drop (page_limit sz) ?S)"
      unfolding items [symmetric] map_append [symmetric] by simp
    ultimately show ?thesis using True by (simp add: n)
  next
    case False
    with items show ?thesis by (simp add: n)
  qed
qed

end

sublocale paged_table \<subseteq> page_listing
    "listEntities E T baseQuery cursorColumn clauses vs sz scan idFunc" cursor_left
    "\<lambda>w cursor. map (\<lambda>r. projr (scan r)) (rows_after T key keep (db w) cursor)"
    "\<lambda>w. quiet E \<and> schema_ok (db w)"
proof
  show "returns (listEntities E T baseQuery cursorColumn clauses vs sz scan idFunc c)" for c
    by (rule returns_listEntities)
next
  fix c w items c' w'
  assume "listEntities E T baseQuery cursorColumn clauses vs sz scan idFunc c w = Some (Inr (items, Some c'), w')"
  then show "cursor_left (Some c') < cursor_left c"
    using next_after_cursor cursor_left_decreases [of c "AfterID c'"] by fastforce
next
  fix w c r w'
  assume "quiet E \<and> schema_ok (db w)"
    and "listEntities E T baseQuery cursorColumn clauses vs sz scan idFunc c w = Some (r, w')"
  moreover from this have "db w' = db w" using same_fetch by (auto simp: within_def tables_same_def)
  ultimately show "(quiet E \<and> schema_ok (db w'))
      \<and> (\<lambda>cursor. map (\<lambda>r. projr (scan r)) (rows_after T key keep (db w') cursor))
        = (\<lambda>cursor. map (\<lambda>r. projr (scan r)) (rows_after T key keep (db w) cursor))" by simp
next
  fix w c items n w'
  assume "quiet E \<and> schema_ok (db w)"
    and "listEntities E T baseQuery cursorColumn clauses vs sz scan idFunc c w = Some (Inr (items, n), w')"
  then show "map (\<lambda>r. projr (scan r)) (rows_after T key keep (db w) c)
      = items @ (case n of None \<Rightarrow> [] | Some c' \<Rightarrow> map (\<lambda>r. projr (scan r)) (rows_after T key keep (db w) (Some c')))"
    using quiet_page by blast
qed

section \<open>Page tokens\<close>

lemma decode_encode_token:
  "uuid_codec E \<Longrightarrow> e_uuid_string E i \<noteq> [] \<Longrightarrow> DecodePageToken E (EncodePageToken E i) = Inr i"
  using raw_url.codec_parse [of "e_uuid_parse E" "e_uuid_string E" i]
  by (simp add: DecodePageToken_def EncodePageToken_def uuid_codec_def b64_decode_encode b64_encode_eq_Nil)

text \<open>
  C29. A page token is never empty text for an id whose text is not empty, and decodes to exactly the id it
  was made from, so a client that hands a token back continues where its page ended.
\<close>

theorem page_token_roundtrip:
  assumes "uuid_codec E" and "e_uuid_string E i \<noteq> []"
  shows "EncodePageToken E i \<noteq> [] \<and> DecodePageToken E (EncodePageToken E i) = Inr i"
  using decode_encode_token [OF assms] assms(2) by (simp add: EncodePageToken_def b64_encode_eq_Nil)

text \<open>
  Whatever page size a client asks for, negative and zero included, a page has between 1 and 100 places,
  exactly the size asked for when that is in this range.
\<close>

theorem page_size_bounds:
  "1 \<le> sint (NormalizePageSize n) \<and> sint (NormalizePageSize n) \<le> 100
    \<and> (sint n \<in> {1..100} \<longleftrightarrow> NormalizePageSize n = n)"
  using normalize_bounds [of n]
  by (auto simp: NormalizePageSize_def MaxListPageSize_def DefaultListPageSize_def)

end
