(* ===== verification/Store.thy ===== *)
theory Store
  imports Pagination
begin

text \<open>
  \<open>internal/store/store.go\<close>: the rows as the service sees them and every operation of the store,
  each a call that runs the statements the code sends. Facts: what the built \<open>UPDATE\<close> and the
  escaped \<open>LIKE\<close> pattern mean, that every operation keeps the constraints of the tables and
  returns, what each reads or changes when nobody else writes, and that the two listings are
  paged tables.
\<close>

section \<open>Data\<close>

record entity_meta =
  meta_ID :: uuid
  meta_CreatedAt :: time
  meta_UpdatedAt :: time

record user =
  usr_Meta :: entity_meta
  usr_OIDCSubject :: string
  usr_Name :: string
  usr_Email :: string
  usr_Nickname :: string
  usr_Username :: string
  usr_PhotoURL :: string

record user_input =
  ui_OIDCSubject :: string
  ui_Name :: string
  ui_Email :: string
  ui_Nickname :: string
  ui_Username :: string
  ui_PhotoURL :: string

record user_update =
  uu_Name :: "string option"
  uu_Email :: "string option"
  uu_Nickname :: "string option"
  uu_Username :: "string option"
  uu_PhotoURL :: "string option"

record user_directory_entry =
  ude_IdentityID :: uuid
  ude_Username :: string
  ude_Name :: string
  ude_PhotoURL :: string

record api_token =
  tok_ID :: uuid
  tok_IdentityID :: uuid
  tok_Name :: string
  tok_TokenHash :: string
  tok_TokenPrefix :: string
  tok_ExpiresAt :: "time option"
  tok_CreatedAt :: time
  tok_LastUsedAt :: "time option"

type_synonym device_status = string
type_synonym device_connectivity = string

definition DeviceStatusPending :: device_status where "DeviceStatusPending = ''pending''"
definition DeviceStatusEnrolled :: device_status where "DeviceStatusEnrolled = ''enrolled''"
definition DeviceConnectivityOnline :: device_connectivity where "DeviceConnectivityOnline = ''online''"
definition DeviceConnectivityOffline :: device_connectivity where "DeviceConnectivityOffline = ''offline''"

record create_api_token_input =
  cti_IdentityID :: uuid
  cti_Name :: string
  cti_TokenHash :: string
  cti_TokenPrefix :: string
  cti_ExpiresAt :: "time option"

record device =
  dev_ID :: uuid
  dev_IdentityID :: uuid
  dev_Name :: string
  dev_OpenZitiIdentityID :: string
  dev_EnrollmentJWT :: "string option"
  dev_Status :: device_status
  dev_Connectivity :: device_connectivity
  dev_EnrolledAt :: "time option"
  dev_LastSeenAt :: "time option"
  dev_CreatedAt :: time

record update_device_liveness_input =
  dli_ID :: uuid
  dli_Status :: device_status
  dli_Connectivity :: device_connectivity
  dli_EnrolledAt :: "time option"
  dli_LastSeenAt :: "time option"

record create_device_input =
  cdi_IdentityID :: uuid
  cdi_Name :: string
  cdi_OpenZitiIdentityID :: string
  cdi_EnrollmentJWT :: string

section \<open>Scanning rows\<close>

text \<open>A null column is \<open>None\<close>; \<open>scanUser\<close> reads a null user name as the empty one.\<close>

definition scanUser :: "user_row \<Rightarrow> go_err + user" where
  "scanUser r =
    Inr \<lparr>usr_Meta = \<lparr>meta_ID = u_identity_id r, meta_CreatedAt = u_created_at r, meta_UpdatedAt = u_updated_at r\<rparr>,
         usr_OIDCSubject = u_oidc_subject r, usr_Name = u_name r, usr_Email = u_email r,
         usr_Nickname = u_nickname r,
         usr_Username = (case u_username r of Some n \<Rightarrow> n | None \<Rightarrow> []),
         usr_PhotoURL = u_photo_url r\<rparr>"

definition scanUserDirectoryEntry :: "user_row \<Rightarrow> go_err + user_directory_entry" where
  "scanUserDirectoryEntry r =
    (case u_username r of
       None \<Rightarrow> Inl (External ''cannot scan NULL into *string'')
     | Some n \<Rightarrow> Inr \<lparr>ude_IdentityID = u_identity_id r, ude_Username = n, ude_Name = u_name r,
                      ude_PhotoURL = u_photo_url r\<rparr>)"

definition scanAPIToken :: "token_row \<Rightarrow> go_err + api_token" where
  "scanAPIToken t =
    Inr \<lparr>tok_ID = t_id t, tok_IdentityID = t_identity_id t, tok_Name = t_name t,
         tok_TokenHash = t_token_hash t, tok_TokenPrefix = t_token_prefix t,
         tok_ExpiresAt = t_expires_at t, tok_CreatedAt = t_created_at t,
         tok_LastUsedAt = t_last_used_at t\<rparr>"

definition scanDevice :: "device_row \<Rightarrow> go_err + device" where
  "scanDevice r =
    (if d_status r \<notin> {DeviceStatusPending, DeviceStatusEnrolled}
     then Inl (Errorf (''unsupported device status '' @ d_status r))
     else if d_connectivity r \<notin> {DeviceConnectivityOnline, DeviceConnectivityOffline}
     then Inl (Errorf (''unsupported device connectivity '' @ d_connectivity r))
     else Inr \<lparr>dev_ID = d_id r, dev_IdentityID = d_identity_id r, dev_Name = d_name r,
               dev_OpenZitiIdentityID = d_openziti_identity_id r,
               dev_EnrollmentJWT = d_enrollment_jwt r, dev_Status = d_status r,
               dev_Connectivity = d_connectivity r, dev_EnrolledAt = d_enrolled_at r,
               dev_LastSeenAt = d_last_seen_at r, dev_CreatedAt = d_created_at r\<rparr>)"

section \<open>Users\<close>

text \<open>The row \<open>INSERT INTO users (identity_id, ..., photo_url)\<close> makes, with the column defaults.\<close>

definition user_row_of :: "session \<Rightarrow> uuid \<Rightarrow> user_input \<Rightarrow> user_row" where
  "user_row_of s i input =
    \<lparr>u_identity_id = i, u_oidc_subject = ui_OIDCSubject input, u_name = ui_Name input,
     u_email = ui_Email input, u_nickname = ui_Nickname input,
     u_username = Some (ui_Username input), u_photo_url = ui_PhotoURL input,
     u_created_at = s_now s, u_updated_at = s_now s\<rparr>"

definition insert_user :: "'x env \<Rightarrow> uuid \<Rightarrow> user_input \<Rightarrow> ('x world, user) go" where
  "insert_user E i input = query_row E (\<lambda>s. sql_insert_user (user_row_of s i input)) scanUser"

definition select_user_by_subject :: "'x env \<Rightarrow> string \<Rightarrow> ('x world, user) go" where
  "select_user_by_subject E subject =
    query_row E (\<lambda>s. sql_select_users (\<lambda>r. u_oidc_subject r = subject)) scanUser"

definition store_ResolveOrCreateUser :: "'x env \<Rightarrow> user_input \<Rightarrow> ('x world, user \<times> bool) go" where
  "store_ResolveOrCreateUser E input =
    attempt (select_user_by_subject E (ui_OIDCSubject input)) (\<lambda>found.
    case found of
      Inr user \<Rightarrow> ret (user, False)
    | Inl err \<Rightarrow>
       if \<not> is_no_rows err then fail err
       else
         call (ext_value (e_uuid_new E)) id (\<lambda>identityID.
         attempt (insert_user E identityID input) (\<lambda>inserted.
         case inserted of
           Inr user \<Rightarrow> ret (user, True)
         | Inl err \<Rightarrow>
            (case as_pg_error err of
               None \<Rightarrow> fail err
             | Some (code, constraint) \<Rightarrow>
                if code = ''23505'' then
                  if constraint = ''users_username_idx'' then fail (AlreadyExists ''username'')
                  else if constraint = ''users_oidc_subject_idx'' then
                    attempt (select_user_by_subject E (ui_OIDCSubject input)) (\<lambda>again.
                    case again of
                      Inl err \<Rightarrow> if is_no_rows err then fail (NotFound ''user'') else fail err
                    | Inr user \<Rightarrow> ret (user, False))
                  else fail (AlreadyExists ''user'')
                else fail err))))"

definition store_CreateUser :: "'x env \<Rightarrow> user_input \<Rightarrow> ('x world, user) go" where
  "store_CreateUser E input =
    call (ext_value (e_uuid_new E)) id (\<lambda>identityID.
    attempt (insert_user E identityID input) (\<lambda>inserted.
    case inserted of
      Inr user \<Rightarrow> ret user
    | Inl err \<Rightarrow>
       (case as_pg_error err of
          None \<Rightarrow> fail err
        | Some (code, constraint) \<Rightarrow>
           if code = ''23505'' then
             if constraint = ''users_username_idx'' then fail (AlreadyExists ''username'')
             else if constraint = ''users_oidc_subject_idx'' then fail (AlreadyExists ''user'')
             else fail (AlreadyExists ''user'')
           else fail err)))"

definition store_GetUser :: "'x env \<Rightarrow> uuid \<Rightarrow> ('x world, user) go" where
  "store_GetUser E i =
    call (query_row E (\<lambda>s. sql_select_users (\<lambda>r. u_identity_id r = i)) scanUser)
      (\<lambda>err. if is_no_rows err then NotFound ''user'' else err) ret"

definition store_GetUserByOIDCSubject :: "'x env \<Rightarrow> string \<Rightarrow> ('x world, user) go" where
  "store_GetUserByOIDCSubject E oidcSubject =
    call (select_user_by_subject E oidcSubject)
      (\<lambda>err. if is_no_rows err then NotFound ''user'' else err) ret"

definition store_BatchGetUsers :: "'x env \<Rightarrow> uuid list \<Rightarrow> ('x world, user list) go" where
  "store_BatchGetUsers E identityIDs =
    (if length identityIDs = 0 then ret []
     else query E (\<lambda>s. sql_select_users_by_id (\<lambda>r. u_identity_id r \<in> set identityIDs)) scanUser)"

text \<open>\<open>if update.F != nil { builder.add(column, *update.F) }\<close>.\<close>

definition add_field :: "string \<Rightarrow> string option \<Rightarrow> update_builder \<Rightarrow> update_builder" where
  "add_field column v b = (case v of None \<Rightarrow> b | Some t \<Rightarrow> builder_add b column (SqlText t))"

definition user_update_builder :: "user_update \<Rightarrow> update_builder" where
  "user_update_builder update =
    add_field ''photo_url'' (uu_PhotoURL update)
      (add_field ''username'' (uu_Username update)
        (add_field ''nickname'' (uu_Nickname update)
          (add_field ''email'' (uu_Email update)
            (add_field ''name'' (uu_Name update) updateBuilder))))"

definition store_UpdateUser :: "'x env \<Rightarrow> uuid \<Rightarrow> user_update \<Rightarrow> ('x world, user) go" where
  "store_UpdateUser E i update =
    (let builder = user_update_builder update
     in if builder_empty builder then fail (Errorf ''user update requires at least one field'')
        else
          let q = builder_build builder ''users'' userColumns ''identity_id'' i
          in call (query_row E (\<lambda>s. exec_update_users q (s_now s)) scanUser)
               (\<lambda>err. if is_no_rows err then NotFound ''user''
                      else case as_pg_error err of
                        Some (code, constraint) \<Rightarrow>
                          if code = ''23505'' then
                            if constraint = ''users_username_idx'' then AlreadyExists ''username''
                            else AlreadyExists ''user''
                          else err
                      | None \<Rightarrow> err) ret)"

definition store_DeleteUser :: "'x env \<Rightarrow> uuid \<Rightarrow> ('x world, unit) go" where
  "store_DeleteUser E i =
    call (run_sql E (\<lambda>s. sql_delete_user i)) id (\<lambda>affected.
    if affected = 0 then fail (NotFound ''user'') else ret ())"

definition store_ListUsers ::
  "'x env \<Rightarrow> int32 \<Rightarrow> page_cursor option \<Rightarrow> ('x world, user list \<times> page_cursor option) go" where
  "store_ListUsers E pageSize cursor =
    listEntities E users_table (''SELECT '' @ userColumns @ '' FROM users'') ''identity_id'' [] []
      pageSize scanUser (\<lambda>u. meta_ID (usr_Meta u)) cursor"

definition escapeLikePattern :: "string \<Rightarrow> string" where
  "escapeLikePattern v =
    replace_bytes [CHR 0x5C \<mapsto> [CHR 0x5C, CHR 0x5C], CHR ''%'' \<mapsto> [CHR 0x5C, CHR ''%''],
                   CHR ''_'' \<mapsto> [CHR 0x5C, CHR ''_'']] v"

definition store_SearchUsers ::
  "'x env \<Rightarrow> string \<Rightarrow> int32 \<Rightarrow> ('x world, user_directory_entry list) go" where
  "store_SearchUsers E pre limit =
    query E (\<lambda>s d. if sint limit < 0 then (Inl (PgError ''2201W'' []), d)
        else sql_search_users (e_collate E) (escapeLikePattern pre @ ''%'') pre (nat (sint limit)) d)
      scanUserDirectoryEntry"

section \<open>API tokens\<close>

definition store_CreateAPIToken :: "'x env \<Rightarrow> create_api_token_input \<Rightarrow> ('x world, api_token) go" where
  "store_CreateAPIToken E input =
    query_row E (\<lambda>s. sql_insert_token
        \<lparr>t_id = s_uuid s, t_identity_id = cti_IdentityID input, t_name = cti_Name input,
         t_token_hash = cti_TokenHash input, t_token_prefix = cti_TokenPrefix input,
         t_expires_at = map_option (e_db_time E) (cti_ExpiresAt input),
         t_created_at = s_now s, t_last_used_at = None\<rparr>) scanAPIToken"

definition store_ListAPITokens :: "'x env \<Rightarrow> uuid \<Rightarrow> ('x world, api_token list) go" where
  "store_ListAPITokens E identityID = query E (\<lambda>s. sql_select_tokens_newest identityID) scanAPIToken"

definition store_RevokeAPIToken :: "'x env \<Rightarrow> uuid \<Rightarrow> uuid \<Rightarrow> ('x world, unit) go" where
  "store_RevokeAPIToken E identityID tokenID =
    call (run_sql E (\<lambda>s. sql_delete_token tokenID identityID)) id (\<lambda>affected.
    if affected = 0 then fail (NotFound ''api token'') else ret ())"

definition store_ResolveAPIToken :: "'x env \<Rightarrow> string \<Rightarrow> ('x world, api_token) go" where
  "store_ResolveAPIToken E tokenHash =
    attempt (query_row E (\<lambda>s. sql_touch_token (s_now s) tokenHash) scanAPIToken) (\<lambda>touched.
    case touched of
      Inr apiToken \<Rightarrow> ret apiToken
    | Inl err \<Rightarrow>
       if \<not> is_no_rows err then fail err
       else
         call (query_row E (\<lambda>s. sql_select_token tokenHash) scanAPIToken)
           (\<lambda>err. if is_no_rows err then NotFound ''api token'' else err) ret)"

section \<open>Devices\<close>

definition store_CreateDevice :: "'x env \<Rightarrow> create_device_input \<Rightarrow> ('x world, device) go" where
  "store_CreateDevice E input =
    query_row E (\<lambda>s. sql_insert_device
        \<lparr>d_id = s_uuid s, d_identity_id = cdi_IdentityID input, d_name = cdi_Name input,
         d_openziti_identity_id = cdi_OpenZitiIdentityID input,
         d_enrollment_jwt = Some (cdi_EnrollmentJWT input), d_status = DeviceStatusPending,
         d_connectivity = ''offline'', d_enrolled_at = None, d_last_seen_at = None,
         d_created_at = s_now s\<rparr>) scanDevice"

definition device_liveness_set :: "'x env \<Rightarrow> update_device_liveness_input \<Rightarrow> device_row \<Rightarrow> device_row" where
  "device_liveness_set E input v =
    v\<lparr>d_status := dli_Status input, d_connectivity := dli_Connectivity input,
      d_enrolled_at := map_option (e_db_time E) (dli_EnrolledAt input),
      d_last_seen_at := map_option (e_db_time E) (dli_LastSeenAt input)\<rparr>"

definition store_UpdateDeviceLiveness ::
  "'x env \<Rightarrow> update_device_liveness_input \<Rightarrow> ('x world, device) go" where
  "store_UpdateDeviceLiveness E input =
    query_row E (\<lambda>s. sql_update_device (device_liveness_set E input) (dli_ID input)) scanDevice"

definition deviceColumns :: string where
  "deviceColumns = ''id, identity_id, name, openziti_identity_id, enrollment_jwt, status, connectivity, enrolled_at, last_seen_at, created_at''"

definition store_ListDevices ::
  "'x env \<Rightarrow> uuid \<Rightarrow> int32 \<Rightarrow> page_cursor option \<Rightarrow> ('x world, device list \<times> page_cursor option) go" where
  "store_ListDevices E identityID pageSize cursor =
    listEntities E devices_table (''SELECT '' @ deviceColumns @ '' FROM user_devices'') ''id''
      [''identity_id = $1''] [SqlUuid identityID] pageSize scanDevice dev_ID cursor"

definition store_DeleteDevice :: "'x env \<Rightarrow> uuid \<Rightarrow> uuid \<Rightarrow> ('x world, device) go" where
  "store_DeleteDevice E identityID deviceID =
    call (query_row E (\<lambda>s. sql_delete_device deviceID identityID) scanDevice)
      (\<lambda>err. if is_no_rows err then NotFound ''device'' else err) ret"

section \<open>Every operation returns and keeps the constraints\<close>

named_theorems kept_ops \<open>calls that keep the constraints of the tables\<close>
named_theorems store_defs \<open>the operations of the store\<close>

declare store_ResolveOrCreateUser_def [store_defs] store_CreateUser_def [store_defs]
  store_GetUser_def [store_defs] store_GetUserByOIDCSubject_def [store_defs]
  store_BatchGetUsers_def [store_defs] store_UpdateUser_def [store_defs] store_DeleteUser_def [store_defs]
  store_ListUsers_def [store_defs] store_SearchUsers_def [store_defs] store_CreateAPIToken_def [store_defs]
  store_ListAPITokens_def [store_defs] store_RevokeAPIToken_def [store_defs]
  store_ResolveAPIToken_def [store_defs] store_CreateDevice_def [store_defs]
  store_UpdateDeviceLiveness_def [store_defs] store_ListDevices_def [store_defs]
  store_DeleteDevice_def [store_defs] insert_user_def [store_defs] select_user_by_subject_def [store_defs]

lemma returns_store [returns_intro]:
  "returns (store_ResolveOrCreateUser E input)" "returns (store_CreateUser E input)"
  "returns (store_GetUser E i)" "returns (store_GetUserByOIDCSubject E subject)"
  "returns (store_BatchGetUsers E ids)" "returns (store_UpdateUser E i update)"
  "returns (store_DeleteUser E i)" "returns (store_ListUsers E n cursor)"
  "returns (store_SearchUsers E pre limit)" "returns (store_CreateAPIToken E cti)"
  "returns (store_ListAPITokens E i)" "returns (store_RevokeAPIToken E i k)"
  "returns (store_ResolveAPIToken E h)" "returns (store_CreateDevice E cdi)"
  "returns (store_UpdateDeviceLiveness E dli)" "returns (store_ListDevices E i n cursor)"
  "returns (store_DeleteDevice E i k)"
  unfolding store_defs Let_def by (intro returns_intro)+

text \<open>The two listings are paged tables.\<close>

lemma read_list_users:
  "read_select (fst (list_query (''SELECT '' @ userColumns @ '' FROM users'') ''identity_id'' [] [] None n))
    = Some (Select userColumns ''users'' [] ''identity_id'' 1)"
  "read_select (fst (list_query (''SELECT '' @ userColumns @ '' FROM users'') ''identity_id'' [] [] (Some c) n))
    = Some (Select userColumns ''users'' [(''identity_id'', Greater, 1)] ''identity_id'' 2)"
  unfolding list_query_def Let_def fst_conv option.case by code_simp+

lemma read_list_devices:
  "read_select (fst (list_query (''SELECT '' @ deviceColumns @ '' FROM user_devices'') ''id''
      [''identity_id = $1''] [SqlUuid i] None n))
    = Some (Select deviceColumns ''user_devices'' [(''identity_id'', Equals, 1)] ''id'' 2)"
  "read_select (fst (list_query (''SELECT '' @ deviceColumns @ '' FROM user_devices'') ''id''
      [''identity_id = $1''] [SqlUuid i] (Some c) n))
    = Some (Select deviceColumns ''user_devices'' [(''identity_id'', Equals, 1), (''id'', Greater, 2)] ''id'' 3)"
  unfolding list_query_def Let_def fst_conv option.case by code_simp+

lemma list_query_args:
  "snd (list_query b c cl vs cursor n) =
    vs @ (case cursor of None \<Rightarrow> [] | Some k \<Rightarrow> [SqlUuid (AfterID k)]) @ [SqlInt (sint n + 1)]"
  by (simp add: list_query_def Let_def split: option.split)

interpretation user_pages: paged_table E users_table "''SELECT '' @ userColumns @ '' FROM users''"
    "''identity_id''" "[]" "[]" sz scanUser "\<lambda>u. meta_ID (usr_Meta u)" u_identity_id "\<lambda>_. True"
  for E sz
proof
  fix cursor limit d
  show "exec_select users_table (list_query (''SELECT '' @ userColumns @ '' FROM users'') ''identity_id'' [] [] cursor limit) d
    = (Inr (take (nat (sint limit + 1)) (rows_after users_table u_identity_id (\<lambda>_. True) d cursor)), d)"
    by (cases cursor) (simp_all only: exec_select_def read_list_users list_query_args, simp_all add: users_table_def
        rows_after_def condition_holds_def param_def)
qed (auto simp: scanUser_def users_table_def schema_ok_def users_ok_def)

interpretation device_pages: paged_table E devices_table "''SELECT '' @ deviceColumns @ '' FROM user_devices''"
    "''id''" "[''identity_id = $1'']" "[SqlUuid i]" sz scanDevice dev_ID d_id "\<lambda>r. d_identity_id r = i"
  for E i sz
proof
  fix cursor limit d
  show "exec_select devices_table (list_query (''SELECT '' @ deviceColumns @ '' FROM user_devices'') ''id''
      [''identity_id = $1''] [SqlUuid i] cursor limit) d
    = (Inr (take (nat (sint limit + 1)) (rows_after devices_table d_id (\<lambda>r. d_identity_id r = i) d cursor)), d)"
    by (cases cursor) (simp_all only: exec_select_def read_list_devices list_query_args, simp_all add: devices_table_def
        rows_after_def condition_holds_def param_def)
qed (auto simp: scanDevice_def devices_table_def schema_ok_def devices_ok_def distinct_map_filter split: if_splits)

text \<open>The operations that only read keep every invariant other sessions keep.\<close>

lemma kept_reads [kept_ops]:
  assumes "lawful E I"
  shows "within (keeps I) (store_GetUser E i)" "within (keeps I) (store_GetUserByOIDCSubject E subject)"
    "within (keeps I) (select_user_by_subject E subject)" "within (keeps I) (store_BatchGetUsers E ids)"
    "within (keeps I) (store_ListUsers E n cursor)" "within (keeps I) (store_SearchUsers E pre limit)"
    "within (keeps I) (store_ListAPITokens E i)" "within (keeps I) (store_ListDevices E i n cursor)"
  unfolding store_defs Let_def
  by (intro kept.within_rules kept_query_row kept_query kept_run_sql assms user_pages.kept_fetch
      device_pages.kept_fetch | simp)+

lemma kept_store [kept_ops]:
  assumes "lawful E schema_ok"
  shows "within (keeps schema_ok) (store_ResolveOrCreateUser E input)"
    "within (keeps schema_ok) (store_CreateUser E input)"
    "within (keeps schema_ok) (store_UpdateUser E i update)"
    "within (keeps schema_ok) (store_DeleteUser E i)"
    "within (keeps schema_ok) (store_CreateAPIToken E cti)"
    "within (keeps schema_ok) (store_RevokeAPIToken E i k)"
    "within (keeps schema_ok) (store_ResolveAPIToken E h)"
    "within (keeps schema_ok) (store_CreateDevice E cdi)"
    "within (keeps schema_ok) (store_UpdateDeviceLiveness E dli)"
    "within (keeps schema_ok) (store_DeleteDevice E i k)"
  unfolding store_defs Let_def
  by (intro kept.within_rules kept_query_row kept_query kept_run_sql kept_ext_value assms
      schema_statements schema_exec_update_users
      | simp add: device_liveness_set_def schema_insert_user schema_statements)+

section \<open>What the built statements mean\<close>

text \<open>The assignments of an update to a row: each field that is present, and \<open>updated_at\<close>.\<close>

definition apply_user_update :: "user_update \<Rightarrow> time \<Rightarrow> user_row \<Rightarrow> user_row" where
  "apply_user_update update now r =
    r\<lparr>u_name := case_option (u_name r) id (uu_Name update),
      u_email := case_option (u_email r) id (uu_Email update),
      u_nickname := case_option (u_nickname r) id (uu_Nickname update),
      u_username := case_option (u_username r) Some (uu_Username update),
      u_photo_url := case_option (u_photo_url r) id (uu_PhotoURL update),
      u_updated_at := now\<rparr>"

definition given :: "string \<Rightarrow> string option \<Rightarrow> (string \<times> sql_value) list" where
  "given column v = (case v of None \<Rightarrow> [] | Some t \<Rightarrow> [(column, SqlText t)])"

definition given_fields :: "user_update \<Rightarrow> (string \<times> sql_value) list" where
  "given_fields update =
    given ''name'' (uu_Name update) @ given ''email'' (uu_Email update) @ given ''nickname'' (uu_Nickname update)
      @ given ''username'' (uu_Username update) @ given ''photo_url'' (uu_PhotoURL update)"

lemma add_field_add_all: "add_field column v (add_all fs) = add_all (fs @ given column v)"
  by (simp add: add_field_def add_all_def given_def split: option.split)

lemma user_update_builder_eq: "user_update_builder update = add_all (given_fields update)"
proof -
  have empty: "updateBuilder = add_all []" by (simp add: add_all_def)
  show ?thesis
    unfolding user_update_builder_def empty add_field_add_all given_fields_def by simp
qed

lemma given_fields_chosen:
  "map fst (given_fields u) = chosen (uu_Name u \<noteq> None) (uu_Email u \<noteq> None) (uu_Nickname u \<noteq> None)
    (uu_Username u \<noteq> None) (uu_PhotoURL u \<noteq> None)"
  by (simp add: given_fields_def given_def chosen_def split: option.split)

lemma update_exec:
  "exec_update_users (builder_build (user_update_builder u) ''users'' userColumns ''identity_id'' i) now d
    = sql_update_user (apply_user_update u now) i d"
proof -
  let ?q = "builder_build (user_update_builder u) ''users'' userColumns ''identity_id'' i"
  let ?f = "map fst (given_fields u)"
  have text_eq: "fst ?q = update_text ?f ''users'' userColumns ''identity_id''"
    by (simp only: user_update_builder_eq build_text)
  have read: "read_update (fst ?q) = Some (expected_update ?f)"
    unfolding text_eq given_fields_chosen using read_chosen by blast
  have params: "snd ?q = map snd (given_fields u) @ [SqlUuid i]"
    by (simp only: user_update_builder_eq build_args)
  have row: "uuid_param (snd ?q) (Suc (length ?f)) = Some i"
    by (simp add: params param_def nth_append)
  obtain fs where fs: "all_some (map (assign_user now (snd ?q))
        (zip ?f (map Param [1..<Suc (length ?f)]) @ [(''updated_at'', Now)])) = Some fs"
    and means: "fold (\<lambda>f r. f r) fs = apply_user_update u now"
    unfolding params
    by (cases "uu_Name u"; cases "uu_Email u"; cases "uu_Nickname u"; cases "uu_Username u"; cases "uu_PhotoURL u")
      (auto simp: given_fields_def given_def assign_user_def param_def apply_user_update_def fun_eq_iff)
  show ?thesis
    unfolding exec_update_users_def read option.case expected_update_def update_text.case row
    using fs means by simp
qed

lemma like_escaped: "like (escapeLikePattern p @ ''%'') s \<longleftrightarrow> prefix p s"
proof (induction p arbitrary: s)
  case Nil
  have "like ''%'' s" by (induction s) auto
  then show ?case by (simp add: escapeLikePattern_def replace_bytes_def)
next
  case (Cons c p)
  have "escapeLikePattern (c # p)
      = (if c \<in> {CHR 0x5C, CHR ''%'', CHR ''_''} then [CHR 0x5C, c] else [c]) @ escapeLikePattern p"
    by (simp add: escapeLikePattern_def replace_bytes_def)
  then show ?case using Cons.IH by (cases s) auto
qed

text \<open>
  C27. The \<open>UPDATE\<close> text that the builder puts together for any combination of fields, run with the arguments
  it collected, assigns every present field its own value and \<open>updated_at\<close> the current time, leaves the
  absent fields alone, and touches only the row of the given id: no placeholder number is off by one.
\<close>

theorem update_query_means:
  "exec_update_users (builder_build (user_update_builder u) ''users'' userColumns ''identity_id'' i) now d
    = sql_update_user (apply_user_update u now) i d"
  by (rule update_exec)

text \<open>
  C28. The \<open>LIKE\<close> pattern made of an escaped text and a percent sign matches exactly the names that start
  with the text: a percent sign, an underscore or a backslash in it stands for itself.
\<close>

theorem search_pattern_exact: "like (escapeLikePattern p @ ''%'') s \<longleftrightarrow> prefix p s"
  by (rule like_escaped)

end
