(* ===== verification/Converter.thy ===== *)
theory Converter
  imports Store
begin

text \<open>
  \<open>internal/server/converter.go\<close>: the store's values as protobuf messages. The two switches that
  panic on an unknown text are \<open>None\<close> there; no device the store scans reaches them.
\<close>

record proto_entity_meta =
  pem_Id :: string
  pem_CreatedAt :: timestamp
  pem_UpdatedAt :: timestamp

record proto_user =
  pu_Meta :: proto_entity_meta
  pu_OidcSubject :: string
  pu_Name :: string
  pu_Email :: string
  pu_Nickname :: string
  pu_Username :: string
  pu_PhotoUrl :: string

record proto_api_token =
  pt_Id :: string
  pt_IdentityId :: string
  pt_Name :: string
  pt_TokenPrefix :: string
  pt_ExpiresAt :: "timestamp option"
  pt_CreatedAt :: timestamp
  pt_LastUsedAt :: "timestamp option"

datatype proto_device_status = DEVICE_STATUS_PENDING | DEVICE_STATUS_ENROLLED
datatype proto_device_connectivity = DEVICE_CONNECTIVITY_ONLINE | DEVICE_CONNECTIVITY_OFFLINE

record proto_device =
  pd_Meta :: proto_entity_meta
  pd_UserIdentityId :: string
  pd_Name :: string
  pd_OpenzitiIdentityId :: string
  pd_Status :: proto_device_status
  pd_Connectivity :: proto_device_connectivity
  pd_EnrolledAt :: "timestamp option"
  pd_LastSeenAt :: "timestamp option"

definition toProtoEntityMeta :: "'x env \<Rightarrow> entity_meta \<Rightarrow> proto_entity_meta" where
  "toProtoEntityMeta E meta =
    \<lparr>pem_Id = e_uuid_string E (meta_ID meta), pem_CreatedAt = e_ts_new E (meta_CreatedAt meta),
     pem_UpdatedAt = e_ts_new E (meta_UpdatedAt meta)\<rparr>"

definition toProtoUser :: "'x env \<Rightarrow> user \<Rightarrow> proto_user" where
  "toProtoUser E u =
    \<lparr>pu_Meta = toProtoEntityMeta E (usr_Meta u), pu_OidcSubject = usr_OIDCSubject u,
     pu_Name = usr_Name u, pu_Email = usr_Email u, pu_Nickname = usr_Nickname u,
     pu_Username = usr_Username u, pu_PhotoUrl = usr_PhotoURL u\<rparr>"

definition toProtoAPIToken :: "'x env \<Rightarrow> api_token \<Rightarrow> proto_api_token" where
  "toProtoAPIToken E token =
    (let expiresAt = (case tok_ExpiresAt token of None \<Rightarrow> None | Some t \<Rightarrow> Some (e_ts_new E t));
         lastUsedAt = (case tok_LastUsedAt token of None \<Rightarrow> None | Some t \<Rightarrow> Some (e_ts_new E t))
     in \<lparr>pt_Id = e_uuid_string E (tok_ID token), pt_IdentityId = e_uuid_string E (tok_IdentityID token),
         pt_Name = tok_Name token, pt_TokenPrefix = tok_TokenPrefix token, pt_ExpiresAt = expiresAt,
         pt_CreatedAt = e_ts_new E (tok_CreatedAt token), pt_LastUsedAt = lastUsedAt\<rparr>)"

definition optionalTimestamp :: "'x env \<Rightarrow> time option \<Rightarrow> timestamp option" where
  "optionalTimestamp E v = (case v of None \<Rightarrow> None | Some t \<Rightarrow> Some (e_ts_new E t))"

definition toProtoDeviceConnectivity :: "device_connectivity \<Rightarrow> proto_device_connectivity option" where
  "toProtoDeviceConnectivity c =
    (if c = DeviceConnectivityOnline then Some DEVICE_CONNECTIVITY_ONLINE
     else if c = DeviceConnectivityOffline then Some DEVICE_CONNECTIVITY_OFFLINE
     else None)"

definition toProtoDeviceStatus :: "device_status \<Rightarrow> proto_device_status option" where
  "toProtoDeviceStatus s =
    (if s = DeviceStatusPending then Some DEVICE_STATUS_PENDING
     else if s = DeviceStatusEnrolled then Some DEVICE_STATUS_ENROLLED
     else None)"

definition toProtoDevice :: "'x env \<Rightarrow> device \<Rightarrow> proto_device option" where
  "toProtoDevice E d =
    (case (toProtoDeviceStatus (dev_Status d), toProtoDeviceConnectivity (dev_Connectivity d)) of
       (Some st, Some conn) \<Rightarrow>
         Some \<lparr>pd_Meta = \<lparr>pem_Id = e_uuid_string E (dev_ID d), pem_CreatedAt = e_ts_new E (dev_CreatedAt d),
                          pem_UpdatedAt = e_ts_new E (dev_CreatedAt d)\<rparr>,
               pd_UserIdentityId = e_uuid_string E (dev_IdentityID d), pd_Name = dev_Name d,
               pd_OpenzitiIdentityId = dev_OpenZitiIdentityID d, pd_Status = st, pd_Connectivity = conn,
               pd_EnrolledAt = optionalTimestamp E (dev_EnrolledAt d),
               pd_LastSeenAt = optionalTimestamp E (dev_LastSeenAt d)\<rparr>
     | _ \<Rightarrow> None)"

text \<open>What every device the store hands out satisfies.\<close>

definition device_ok :: "device \<Rightarrow> bool" where
  "device_ok d \<longleftrightarrow> dev_Status d \<in> {DeviceStatusPending, DeviceStatusEnrolled}
    \<and> dev_Connectivity d \<in> {DeviceConnectivityOnline, DeviceConnectivityOffline}"

lemma scan_device_ok: "scanDevice r = Inr d \<Longrightarrow> device_ok d"
  by (auto simp: scanDevice_def device_ok_def split: if_splits)

lemma to_proto_device_total: "device_ok d \<Longrightarrow> \<exists>p. toProtoDevice E d = Some p"
  by (auto simp: device_ok_def toProtoDevice_def toProtoDeviceStatus_def toProtoDeviceConnectivity_def)

lemma query_row_scanned: "query_row E stmt scan w = Some (Inr x, w') \<Longrightarrow> \<exists>r. scan r = Inr x"
  by (auto simp: query_row_def call_Inr_iff neq_Nil_conv split: list.split_asm)

lemma list_all2_right: "list_all2 P xs ys \<Longrightarrow> y \<in> set ys \<Longrightarrow> \<exists>x \<in> set xs. P x y"
  by (induction rule: list_all2_induct) auto

lemma store_devices_ok:
  "store_CreateDevice E cdi w = Some (Inr d, w') \<Longrightarrow> device_ok d"
  "store_ListDevices E i n cursor w = Some (Inr (ds, k), w') \<Longrightarrow> d \<in> set ds \<Longrightarrow> device_ok d"
proof -
  assume "store_CreateDevice E cdi w = Some (Inr d, w')"
  then have "\<exists>r. scanDevice r = Inr d"
    unfolding store_CreateDevice_def by (rule query_row_scanned)
  then show "device_ok d" by (auto intro: scan_device_ok)
next
  assume run: "store_ListDevices E i n cursor w = Some (Inr (ds, k), w')" and d: "d \<in> set ds"
  obtain d' where "list_all2 (\<lambda>r x. scanDevice r = Inr x)
      (take (page_limit n) (rows_after devices_table d_id (\<lambda>r. d_identity_id r = i) d' cursor)) ds"
    using run unfolding store_ListDevices_def by (rule device_pages.fetch_Inr)
  from list_all2_right [OF this d] show "device_ok d" by (auto intro: scan_device_ok)
qed

end
