(* ===== verification/Username.thy ===== *)
theory Username
  imports Go_Monad Sha256
begin

text \<open>
  \<open>internal/server/username.go\<close>: which user names are valid, how a name is derived from what
  the identity provider says of a person, and the iterator over the candidates tried when a
  name is taken. Facts: whatever is derived and every candidate is a valid name, the numbered
  candidates differ, and the iterator ends after 104 candidates.
\<close>

section \<open>Validation\<close>

definition usernameMaxLength :: nat where "usernameMaxLength = 32"
definition usernameSearchDefault :: int32 where "usernameSearchDefault = 10"
definition usernameSearchMax :: int32 where "usernameSearchMax = 20"
definition usernameNumericSuffixMax :: nat where "usernameNumericSuffixMax = 99"
definition usernameRandomSuffixLen :: nat where "usernameRandomSuffixLen = 4"
definition usernameRandomSuffixTries :: nat where "usernameRandomSuffixTries = 5"

text \<open>\<open>usernamePattern\<close>, \<open>^[a-z0-9_-]+$\<close>: every rune is in the class, and there is one.\<close>

definition username_rune :: "rune \<Rightarrow> bool" where
  "username_rune r \<longleftrightarrow> (97 \<le> r \<and> r \<le> 122) \<or> (48 \<le> r \<and> r \<le> 57) \<or> r = 95 \<or> r = 45"

definition usernamePattern :: string where
  "usernamePattern = ''^[a-z0-9_-]+$''"

definition matches_username_pattern :: "string \<Rightarrow> bool" where
  "matches_username_pattern s \<longleftrightarrow> s \<noteq> [] \<and> list_all username_rune (runes (bytes s))"

definition validateUsername :: "string \<Rightarrow> go_err + unit" where
  "validateUsername v =
    (if v = [] then Inl (Errorf ''value is required'')
     else if length v > usernameMaxLength
     then Inl (Errorf (''max length '' @ decimal usernameMaxLength))
     else if \<not> matches_username_pattern v
     then Inl (Errorf (''must match '' @ usernamePattern))
     else Inr ())"

definition validateUsernamePrefix :: "string \<Rightarrow> go_err + unit" where
  "validateUsernamePrefix v =
    (if v = [] then Inl (Errorf ''value is required'')
     else if length v > usernameMaxLength
     then Inl (Errorf (''max length '' @ decimal usernameMaxLength))
     else if \<not> matches_username_pattern v
     then Inl (Errorf (''must match '' @ usernamePattern))
     else Inr ())"

section \<open>Deriving a name\<close>

text \<open>The loop over the lowered runes; the flag is \<open>lastDash\<close>.\<close>

fun normalize_loop :: "rune list \<Rightarrow> bool \<Rightarrow> string" where
  "normalize_loop [] lastDash = []"
| "normalize_loop (r # rs) lastDash =
    (if \<not> username_rune r then
       (if lastDash then normalize_loop rs lastDash
        else CHR ''-'' # normalize_loop rs True)
     else if r = 45 then
       (if lastDash then normalize_loop rs lastDash
        else CHR ''-'' # normalize_loop rs True)
     else char_of r # normalize_loop rs False)"

definition normalizeUsernameCandidate :: "string \<Rightarrow> string" where
  "normalizeUsernameCandidate v =
    (if v = [] then []
     else
       let normalized = trim (normalize_loop (lower_runes v) False) CHR ''-''
       in if length normalized > usernameMaxLength then take usernameMaxLength normalized
          else normalized)"

definition fallbackUsername :: "string \<Rightarrow> string" where
  "fallbackUsername oidcSubject = ''user-'' @ take 8 (hex_encode (sha256_sum oidcSubject))"

definition emailLocalPart :: "string \<Rightarrow> string" where
  "emailLocalPart email = (if email = [] then [] else hd (split_two email CHR ''@''))"

text \<open>The loop over the candidates: the first that normalises to something.\<close>

fun first_normalized :: "string list \<Rightarrow> string option" where
  "first_normalized [] = None"
| "first_normalized (c # cs) =
    (let normalized = normalizeUsernameCandidate c
     in if normalized \<noteq> [] then Some normalized else first_normalized cs)"

definition deriveUsernameBase :: "string \<Rightarrow> string \<Rightarrow> string \<Rightarrow> string \<Rightarrow> string" where
  "deriveUsernameBase preferredUsername email name oidcSubject =
    (case first_normalized [preferredUsername, emailLocalPart email, name] of
       Some normalized \<Rightarrow> normalized
     | None \<Rightarrow> fallbackUsername oidcSubject)"

section \<open>The candidates\<close>

text \<open>\<open>None\<close> is the panic of slicing with a negative length, for a suffix longer than a name.\<close>

definition usernameWithSuffix :: "string \<Rightarrow> string \<Rightarrow> string option" where
  "usernameWithSuffix b sfx =
    (let maxBaseLength = int usernameMaxLength - int (length sfx)
     in if int (length b) > maxBaseLength
        then map_option (\<lambda>trimmed. trim_right trimmed CHR ''-'' @ sfx) (slice_to b maxBaseLength)
        else Some (b @ sfx))"

definition suffix_letters :: string where
  "suffix_letters = ''abcdefghijklmnopqrstuvwxyz0123456789''"

text \<open>
  \<open>randomUsernameSuffix\<close>, over the function \<open>rand.Int(rand.Reader, max)\<close>: one draw per
  letter, the first failed draw ends it.
\<close>

fun random_suffix :: "(nat \<Rightarrow> ('w, nat) go) \<Rightarrow> nat \<Rightarrow> ('w, string) go" where
  "random_suffix rand_int 0 w = ret [] w"
| "random_suffix rand_int (Suc n) w =
    call (rand_int (length suffix_letters)) id (\<lambda>d.
    call (need (if d < length suffix_letters then Some (suffix_letters ! d) else None)) id (\<lambda>c.
    call (random_suffix rand_int n) id (\<lambda>cs. ret (c # cs)))) w"

record candidate_iterator =
  base :: string
  nextIndex :: nat
  randomGenerated :: nat

definition newUsernameCandidateIterator :: "string \<Rightarrow> candidate_iterator" where
  "newUsernameCandidateIterator b = \<lparr>base = b, nextIndex = 0, randomGenerated = 0\<rparr>"

text \<open>\<open>Next\<close>: the candidate, or \<open>None\<close> for \<open>("", false, nil)\<close>, and the iterator after it.\<close>

definition next_candidate ::
  "(nat \<Rightarrow> ('w, string) go) \<Rightarrow> candidate_iterator \<Rightarrow> ('w, string option \<times> candidate_iterator) go" where
  "next_candidate randomSuffix iter =
    (if nextIndex iter = 0 then
       ret (Some (base iter), iter\<lparr>nextIndex := nextIndex iter + 1\<rparr>)
     else if nextIndex iter < usernameNumericSuffixMax then
       call (need (usernameWithSuffix (base iter) (''-'' @ decimal (nextIndex iter + 1)))) id (\<lambda>c.
       ret (Some c, iter\<lparr>nextIndex := nextIndex iter + 1\<rparr>))
     else if randomGenerated iter < usernameRandomSuffixTries then
       call (randomSuffix usernameRandomSuffixLen) id (\<lambda>sfx.
       call (need (usernameWithSuffix (base iter) (''-'' @ sfx))) id (\<lambda>c.
       ret (Some c, iter\<lparr>randomGenerated := randomGenerated iter + 1\<rparr>)))
     else ret (None, iter))"

text \<open>How many candidates the iterator can still give.\<close>

definition candidates_left :: "candidate_iterator \<Rightarrow> nat" where
  "candidates_left iter =
    (usernameNumericSuffixMax - nextIndex iter) + (usernameRandomSuffixTries - randomGenerated iter)"

lemmas username_bounds = usernameMaxLength_def usernameNumericSuffixMax_def
  usernameRandomSuffixLen_def usernameRandomSuffixTries_def

section \<open>Valid names are short ASCII names\<close>

definition username_char :: "char \<Rightarrow> bool" where
  "username_char c \<longleftrightarrow> username_rune (of_char c)"

lemma username_rune_ascii: "username_rune r \<Longrightarrow> r < 128"
  by (auto simp: username_rune_def)

text \<open>Decoding never turns a byte outside ASCII into a character of the class, nor loses one.\<close>

lemma mod_window: "m * q \<le> b \<Longrightarrow> b < m * q + m \<Longrightarrow> b mod m = b - m * (q :: nat)"
proof -
  assume "m * q \<le> b" and "b < m * q + m"
  then obtain k where "b = m * q + k" and "k < m"
    by (metis le_iff_add nat_add_left_cancel_less)
  then show ?thesis by simp
qed

lemma lead_bits:
  "194 \<le> b \<Longrightarrow> b \<le> 223 \<Longrightarrow> 2 \<le> b mod (32 :: nat)"
  "224 \<le> b \<Longrightarrow> b \<le> 239 \<Longrightarrow> b \<noteq> 224 \<Longrightarrow> 1 \<le> b mod (16 :: nat)"
  "240 \<le> b \<Longrightarrow> b \<le> 244 \<Longrightarrow> b \<noteq> 240 \<Longrightarrow> 1 \<le> b mod (8 :: nat)"
  "144 \<le> b \<Longrightarrow> b \<le> 191 \<Longrightarrow> 16 \<le> b mod (64 :: nat)"
  "160 \<le> b \<Longrightarrow> b \<le> 191 \<Longrightarrow> 32 \<le> b mod (64 :: nat)"
  using mod_window [of 32 6 b] mod_window [of 16 14 b] mod_window [of 8 30 b] mod_window [of 64 2 b]
  by simp_all

lemma decode_rune_ascii: "fst (decode_rune b bs) < 128 \<Longrightarrow> b < 256 \<Longrightarrow> b < 128"
  apply (auto simp: decode_rune_def rune_error_def continuation_def second_byte_def
      split: if_splits list.splits)
  subgoal premises prems using prems lead_bits(1) [of b] by linarith
  subgoal premises prems for x y z using prems lead_bits(5) [of x] by linarith
  subgoal premises prems using prems lead_bits(2) [of b] by linarith
  subgoal premises prems for x y z u using prems lead_bits(4) [of x] by linarith
  subgoal premises prems using prems lead_bits(3) [of b] by linarith
  done

lemma runes_username:
  "\<forall>b \<in> set bs. b < 256 \<Longrightarrow> list_all username_rune (runes bs) \<longleftrightarrow> list_all username_rune bs"
proof (induction bs rule: runes.induct)
  case (2 b bs)
  show ?case
  proof (cases "b < 128")
    case True
    then have "decode_rune b bs = (b, 0)" by (simp add: decode_rune_def)
    with 2 show ?thesis by simp
  next
    case False
    then have "\<not> username_rune b" by (auto dest: username_rune_ascii)
    moreover have "\<not> username_rune (fst (decode_rune b bs))"
      using decode_rune_ascii [of b bs] False "2.prems" by (auto dest: username_rune_ascii)
    ultimately show ?thesis by simp
  qed
qed simp

lemma matches_username_pattern_iff:
  "matches_username_pattern s \<longleftrightarrow> s \<noteq> [] \<and> list_all username_char s"
proof -
  have "list_all username_rune (runes (bytes s)) \<longleftrightarrow> list_all username_rune (bytes s)"
    by (rule runes_username) (simp add: bytes_def nat_of_char_less_256)
  then show ?thesis
    by (simp add: matches_username_pattern_def bytes_def list_all_iff username_char_def)
qed

lemma validateUsername_iff:
  "validateUsername s = Inr () \<longleftrightarrow> s \<noteq> [] \<and> length s \<le> 32 \<and> list_all username_char s"
  by (auto simp: validateUsername_def matches_username_pattern_iff usernameMaxLength_def)

lemma validateUsernamePrefix_eq: "validateUsernamePrefix s = validateUsername s"
  by (simp add: validateUsernamePrefix_def validateUsername_def)

lemma username_char_digit: "c \<in> set ''0123456789'' \<Longrightarrow> username_char c"
  by (auto simp: username_char_def username_rune_def)

lemma username_char_hex: "c \<in> set ''0123456789abcdef'' \<Longrightarrow> username_char c"
  by (auto simp: username_char_def username_rune_def)

lemma username_char_letter: "c \<in> set suffix_letters \<Longrightarrow> username_char c"
  by (auto simp: username_char_def username_rune_def suffix_letters_def)

lemma username_char_dash [simp]: "username_char CHR ''-''"
  by (simp add: username_char_def username_rune_def)

section \<open>Derived names\<close>

definition no_double_dash :: "string \<Rightarrow> bool" where
  "no_double_dash s \<longleftrightarrow> successively (\<lambda>x y. \<not> (x = CHR ''-'' \<and> y = CHR ''-'')) s"

lemma username_rune_dash: "username_rune 45"
  by (simp add: username_rune_def)

lemma username_rune_mod: "username_rune r \<Longrightarrow> username_rune (r mod 256)"
  using username_rune_ascii [of r] by simp

lemma of_char_char_of_username: "username_rune r \<Longrightarrow> of_char (char_of r) = r"
  by (auto dest: username_rune_ascii)

lemma char_of_not_dash: "username_rune r \<Longrightarrow> r \<noteq> 45 \<Longrightarrow> char_of r \<noteq> CHR ''-''"
proof
  assume r: "username_rune r" "r \<noteq> 45" and eq: "char_of r = CHR ''-''"
  have "r = of_char (char_of r)" using of_char_char_of_username [OF r(1)] by simp
  also have "\<dots> = 45" by (simp add: eq)
  finally show False using r(2) by simp
qed

lemma normalize_loop_chars: "list_all username_char (normalize_loop rs d)"
  by (induction rs d rule: normalize_loop.induct)
    (auto simp: username_char_def username_rune_mod username_rune_dash)

lemma normalize_loop_after_dash:
  "normalize_loop rs True = c # cs \<Longrightarrow> c \<noteq> CHR ''-''"
  by (induction rs "True" rule: normalize_loop.induct)
    (auto simp: char_of_not_dash split: if_splits)

lemma normalize_loop_no_double_dash: "no_double_dash (normalize_loop rs d)"
proof (induction rs d rule: normalize_loop.induct)
  case (2 r rs d)
  have dash: "no_double_dash (CHR ''-'' # normalize_loop rs True)"
    if "no_double_dash (normalize_loop rs True)"
    using that normalize_loop_after_dash [of rs]
    by (cases "normalize_loop rs True") (auto simp: no_double_dash_def)
  have letter: "no_double_dash (char_of r # s)" if "no_double_dash s" "username_rune r" "r \<noteq> 45" for s
    using that char_of_not_dash by (cases s) (auto simp: no_double_dash_def)
  from 2 show ?case
    by (auto simp: dash letter)
qed (simp add: no_double_dash_def)

lemma no_double_dash_sub:
  "no_double_dash (xs @ ys) \<Longrightarrow> no_double_dash xs \<and> no_double_dash ys"
  by (simp add: no_double_dash_def successively_append_iff)

lemma no_double_dash_trim: "no_double_dash s \<Longrightarrow> no_double_dash (trim s CHR ''-'')"
proof -
  let ?t = "dropWhile (\<lambda>x. x = CHR ''-'') s"
  assume "no_double_dash s"
  then have "no_double_dash (takeWhile (\<lambda>x. x = CHR ''-'') s @ ?t)" by simp
  then have "no_double_dash ?t" by (blast dest: no_double_dash_sub)
  moreover obtain zs where "?t = trim s CHR ''-'' @ zs"
    using trim_right_prefix [of ?t "CHR ''-''"] unfolding trim_def by (rule prefixE)
  ultimately show ?thesis by (metis no_double_dash_sub)
qed

text \<open>What the trimming and the cut to 32 bytes leave of the loop's result.\<close>

lemma normalize_cases:
  "normalizeUsernameCandidate s = [] \<or>
    (\<exists>t. t = trim (normalize_loop (lower_runes s) False) CHR ''-'' \<and> t \<noteq> []
       \<and> normalizeUsernameCandidate s = take 32 t)"
  by (auto simp: normalizeUsernameCandidate_def usernameMaxLength_def Let_def)

lemma take_hd: "t \<noteq> [] \<Longrightarrow> hd (take 32 t) = hd t"
  by (cases t) auto

lemma normalize_facts:
  assumes "normalizeUsernameCandidate s \<noteq> []"
  defines "n \<equiv> normalizeUsernameCandidate s"
  shows "length n \<le> 32" and "list_all username_char n" and "hd n \<noteq> CHR ''-''"
    and "no_double_dash n" and "last n = CHR ''-'' \<Longrightarrow> length n = 32"
proof -
  obtain t where t: "t = trim (normalize_loop (lower_runes s) False) CHR ''-''" "t \<noteq> []"
      and n: "n = take 32 t"
    using normalize_cases [of s] assms by auto
  show "length n \<le> 32" by (simp add: n)
  have "list_all username_char t"
    using normalize_loop_chars set_trim unfolding t list_all_iff by blast
  then show "list_all username_char n"
    by (auto simp: n list_all_iff dest: in_set_takeD)
  show "hd n \<noteq> CHR ''-''"
    using trim_hd [of _ "CHR ''-''"] t by (auto simp: n take_hd)
  have "no_double_dash t"
    unfolding t by (intro no_double_dash_trim normalize_loop_no_double_dash)
  then show "no_double_dash n"
    unfolding n by (metis append_take_drop_id no_double_dash_sub)
  assume dash: "last n = CHR ''-''"
  have "last t \<noteq> CHR ''-''"
    using t trim_right_last unfolding t trim_def by blast
  with dash n have "\<not> length t \<le> 32" by auto
  then show "length n = 32" by (simp add: n)
qed

text \<open>
  C40. Normalisation gives nothing or a canonical name: at most 32 bytes, every one a lower-case letter,
  a digit, an underscore or a dash, no dash in front, no two dashes in a row, and a dash at the end only
  when the name was cut at 32 bytes.
\<close>

theorem normalize_canonical:
  assumes "normalizeUsernameCandidate s = n" and "n \<noteq> []"
  shows "validateUsername n = Inr () \<and> hd n \<noteq> CHR ''-'' \<and> no_double_dash n
    \<and> (last n = CHR ''-'' \<longrightarrow> length n = 32)"
  using normalize_facts [of s] assms by (auto simp: validateUsername_iff)

theorem normalize_canonical_witness:
  "normalizeUsernameCandidate ''Jane Doe'' = ''jane-doe'' \<and> validateUsername ''jane-doe'' = Inr ()"
proof -
  have n: "normalizeUsernameCandidate ''Jane Doe'' = ''jane-doe''" by code_simp
  then show ?thesis using normalize_canonical [OF n] by simp
qed

lemma char_of_letters: "char_of (97 :: nat) = CHR ''a''" "char_of (98 :: nat) = CHR ''b''"
  by code_simp+

text \<open>
  The cut comes after the trimming, so a name can end in the dash that trimming is there to
  remove: 31 letters, a dash and one more letter normalise to the 31 letters and the dash.
\<close>

theorem normalize_trailing_dash:
  "normalizeUsernameCandidate ''aaaaaaaaaaaaaaaaaaaaaaaaaaaaaaa-b'' = ''aaaaaaaaaaaaaaaaaaaaaaaaaaaaaaa-''"
  by (simp add: normalizeUsernameCandidate_def lower_runes_def bytes_def to_lower_def decode_rune_def
      username_rune_def trim_def trim_right_def usernameMaxLength_def Let_def char_of_letters)

lemma fallback_valid: "validateUsername (fallbackUsername s) = Inr ()"
proof -
  have "list_all username_char (take 8 (hex_encode (sha256_sum s)))"
    using hex_encode_chars [of "sha256_sum s"] username_char_hex
    by (auto simp only: list_all_iff dest!: in_set_takeD)
  then show ?thesis
    by (auto simp: validateUsername_iff fallbackUsername_def username_char_def username_rune_def)
qed

lemma first_normalized_valid: "first_normalized cs = Some n \<Longrightarrow> validateUsername n = Inr ()"
  by (induction cs) (auto simp: Let_def validateUsername_iff normalize_facts split: if_splits)

lemma derived_base_valid: "validateUsername (deriveUsernameBase preferred email name subject) = Inr ()"
  by (auto simp: deriveUsernameBase_def fallback_valid first_normalized_valid
      simp del: first_normalized.simps split: option.split)

text \<open>
  C38. Whatever the identity provider says of a person, even nothing at all, the derived base name is a
  valid user name, so the first candidate of sign-up passes the validation a caller's own choice has to pass.
\<close>

theorem derive_valid: "validateUsername (deriveUsernameBase preferred email name subject) = Inr ()"
  by (rule derived_base_valid)

section \<open>Candidates\<close>

lemma length_decimal_two: "n < 100 \<Longrightarrow> length (decimal n) \<le> 2"
  using length_to_digits [of 10 n 2] by (simp add: decimal_def)

lemma numeric_suffix_chars: "list_all username_char (''-'' @ decimal n)"
  using decimal_chars [of _ n] username_char_digit by (auto simp only: list_all_iff set_append) simp

lemma usernameWithSuffix_cases:
  assumes "length sfx \<le> 32"
  obtains p where "usernameWithSuffix b sfx = Some (p @ sfx)" and "prefix p b"
    and "length p + length sfx \<le> 32"
proof (cases "int (length b) > 32 - int (length sfx)")
  case False
  with that [of b] show ?thesis by (simp add: usernameWithSuffix_def usernameMaxLength_def Let_def)
next
  case True
  let ?t = "take (32 - length sfx) b"
  have m: "nat (32 - int (length sfx)) = 32 - length sfx" by simp
  have "slice_to b (32 - int (length sfx)) = Some ?t"
    using True assms m by (simp add: slice_to_def)
  moreover have "length (trim_right ?t CHR ''-'') \<le> 32 - length sfx"
    using length_trim_right [of ?t "CHR ''-''"] by simp
  moreover have "prefix (trim_right ?t CHR ''-'') b"
    using trim_right_prefix take_is_prefix by (rule prefix_order.trans)
  ultimately show ?thesis
    using that [of "trim_right ?t CHR ''-''"] True assms
    by (simp add: usernameWithSuffix_def usernameMaxLength_def Let_def)
qed

lemma usernameWithSuffix_valid:
  assumes "length sfx \<le> 32" and "sfx \<noteq> []" and "list_all username_char sfx"
    and "list_all username_char b"
  shows "\<exists>c. usernameWithSuffix b sfx = Some c \<and> validateUsername c = Inr ()"
  using assms usernameWithSuffix_cases [OF assms(1), of b]
  by (metis (no_types, lifting) append_is_Nil_conv length_append list_all_append prefix_def
      validateUsername_iff)

text \<open>What the iterator relies on: a random suffix has the length asked for and allowed characters.\<close>

definition suffix_source :: "(nat \<Rightarrow> ('w, string) go) \<Rightarrow> bool" where
  "suffix_source randomSuffix \<longleftrightarrow>
    (\<forall>n w s w'. randomSuffix n w = Some (Inr s, w') \<longrightarrow> length s = n \<and> list_all username_char s)"

lemma random_suffix_source: "suffix_source (random_suffix rand_int)"
proof -
  have "length s = n \<and> list_all username_char s"
    if "random_suffix rand_int n w = Some (Inr s, w')" for n w s w'
    using that
  proof (induction n arbitrary: w s)
    case (Suc n)
    then show ?case
      by (auto simp: call_Inr_iff need_def username_char_letter split: if_splits)
  qed simp
  then show ?thesis by (auto simp: suffix_source_def)
qed

lemma next_candidate_step:
  assumes "next_candidate randomSuffix iter w = Some (Inr (c, iter'), w')"
  shows "base iter' = base iter"
    and "c = None \<longleftrightarrow> candidates_left iter = 0"
    and "c \<noteq> None \<Longrightarrow> candidates_left iter = Suc (candidates_left iter')"
  using assms
  by (auto simp: next_candidate_def call_Inr_iff need_def candidates_left_def username_bounds
      simp del: call_need split: if_splits)

lemma next_candidate_chars:
  assumes "validateUsername (base iter) = Inr ()" and "suffix_source randomSuffix"
    and "next_candidate randomSuffix iter w = Some (Inr (Some s, iter'), w')"
  shows "validateUsername s = Inr ()"
proof -
  have valid: "validateUsername s = Inr ()" if "usernameWithSuffix (base iter) sfx = Some s"
    and "length sfx \<le> 32" and "sfx \<noteq> []" and "list_all username_char sfx" for s sfx
    using usernameWithSuffix_valid [of sfx "base iter"] that assms(1)
    by (simp add: validateUsername_iff)
  have random: "length sfx = n \<and> list_all username_char sfx" if "randomSuffix n v = Some (Inr sfx, v')"
    for n v sfx v'
    using assms(2) that by (auto simp: suffix_source_def)
  have number: "length (''-'' @ decimal (nextIndex iter + 1)) \<le> 32" if "nextIndex iter < 99"
    using length_decimal_two [of "nextIndex iter + 1"] that by simp
  show ?thesis
  proof -
    consider "nextIndex iter = 0" "s = base iter"
      | "nextIndex iter < 99" "usernameWithSuffix (base iter) (''-'' @ decimal (nextIndex iter + 1)) = Some s"
      | sfx v where "randomSuffix 4 w = Some (Inr sfx, v)" "usernameWithSuffix (base iter) (''-'' @ sfx) = Some s"
      using assms(3)
      by (auto simp: next_candidate_def call_Inr_iff need_def username_bounds
          simp del: call_need append.simps split: if_splits)
    then show ?thesis
    proof cases
      case 1
      then show ?thesis using assms(1) by simp
    next
      case 2
      from 2(2) number [OF 2(1)] show ?thesis
        by (rule valid) (use numeric_suffix_chars [of "nextIndex iter + 1"] in simp_all)
    next
      case (3 sfx v)
      from 3(2) show ?thesis
        by (rule valid) (use random [OF 3(1)] in simp_all)
    qed
  qed
qed

text \<open>
  C39. Every candidate the iterator gives is itself a valid user name when the base is, numbered and
  random ones included, and the iterator counts down: each candidate uses up exactly one of the 104 a
  fresh iterator has, and it says so (\<open>ok\<close> false) exactly when none is left.
\<close>

theorem next_candidate_valid:
  assumes "validateUsername (base iter) = Inr ()" and "suffix_source randomSuffix"
    and "next_candidate randomSuffix iter w = Some (Inr (c, iter'), w')"
  shows "base iter' = base iter
    \<and> (case c of None \<Rightarrow> candidates_left iter = 0
       | Some s \<Rightarrow> validateUsername s = Inr () \<and> candidates_left iter = Suc (candidates_left iter'))"
  using next_candidate_chars [OF assms(1,2)] next_candidate_step [OF assms(3)] assms(3)
  by (auto split: option.split)

theorem next_candidate_valid_witness:
  "\<exists>iter'. next_candidate (random_suffix (\<lambda>n. ret 7)) (newUsernameCandidateIterator ''alice'') ()
      = Some (Inr (Some ''alice'', iter'), ()) \<and> validateUsername ''alice'' = Inr ()
      \<and> candidates_left iter' = 103"
proof -
  let ?it = "newUsernameCandidateIterator ''alice''" and ?rnd = "random_suffix (\<lambda>n. ret 7)"
  have b: "validateUsername (base ?it) = Inr ()"
    by (simp add: newUsernameCandidateIterator_def validateUsername_iff username_char_def username_rune_def)
  have run: "next_candidate ?rnd ?it () = Some (Inr (Some ''alice'', ?it\<lparr>nextIndex := 1\<rparr>), ())"
    by (simp add: next_candidate_def newUsernameCandidateIterator_def)
  show ?thesis
    using next_candidate_valid [OF b random_suffix_source run] run
    by (simp add: newUsernameCandidateIterator_def candidates_left_def username_bounds)
qed

lemma last_dash: "CHR ''-'' \<notin> set s \<Longrightarrow> takeWhile (\<lambda>c. c \<noteq> CHR ''-'') (rev (p @ ''-'' @ s)) = rev s"
  by (simp add: takeWhile_append)

text \<open>
  The numbered candidates of one base all differ, however the base is cut to make room for the
  number: no candidate is wasted on a name already found taken.
\<close>

theorem numbered_candidates_distinct:
  assumes "usernameWithSuffix b (''-'' @ decimal m) = Some s"
    and "usernameWithSuffix b' (''-'' @ decimal n) = Some s"
    and "m < 100" and "n < 100"
  shows "m = n"
proof -
  have len: "length (''-'' @ decimal k) \<le> 32" if "k < 100" for k
    using length_decimal_two [OF that] by simp
  have no_dash: "CHR ''-'' \<notin> set (decimal k)" for k
    using decimal_chars [of "CHR ''-''" k] by auto
  obtain p where p: "s = p @ ''-'' @ decimal m"
    by (rule usernameWithSuffix_cases [OF len [OF assms(3)], of b]) (use assms(1) in auto)
  obtain q where q: "s = q @ ''-'' @ decimal n"
    by (rule usernameWithSuffix_cases [OF len [OF assms(4)], of b']) (use assms(2) in auto)
  from p q have "p @ ''-'' @ decimal m = q @ ''-'' @ decimal n" by simp
  then have "rev (decimal m) = rev (decimal n)"
    using last_dash [OF no_dash] by metis
  then show ?thesis by (simp add: decimal_inj)
qed

theorem numbered_candidates_distinct_witness:
  "usernameWithSuffix ''bob'' (''-'' @ decimal 2) \<noteq> usernameWithSuffix ''bob'' (''-'' @ decimal 12)"
proof
  assume eq: "usernameWithSuffix ''bob'' (''-'' @ decimal 2) = usernameWithSuffix ''bob'' (''-'' @ decimal 12)"
  have "usernameWithSuffix ''bob'' (''-'' @ decimal 2) = Some ''bob-2''" by code_simp
  with eq show False using numbered_candidates_distinct [of "''bob''" 2 "''bob-2''" "''bob''" 12] by simp
qed

end
