(* ===== verification/Api_Token.thy ===== *)
theory Api_Token
  imports Go_Monad Sha256
begin

text \<open>
  \<open>internal/apitoken/apitoken.go\<close>: the text of a new token, its hash and its visible prefix.
  The random bytes of \<open>rand.Read\<close> are an argument; everything else is computed as the
  code does, with the conversion loop and the in-place reversal as loops. The encoder is
  proved equal to the positional numeral it stands for, which gives that generation cannot
  fail on 32 bytes, and that different random bytes give different tokens.
\<close>

section \<open>The code\<close>

definition tokenPrefix :: string where
  "tokenPrefix = ''agyn_''"

definition tokenRandomChars :: nat where
  "tokenRandomChars = 44"

definition base62Alphabet :: string where
  "base62Alphabet = ''0123456789ABCDEFGHIJKLMNOPQRSTUVWXYZabcdefghijklmnopqrstuvwxyz''"

record generated_token =
  Plaintext :: string
  Hash :: string
  TokenPrefix :: string

text \<open>\<open>new(big.Int).SetBytes(input)\<close>: big-endian.\<close>

definition set_bytes :: "8 word list \<Rightarrow> nat" where
  "set_bytes bs = of_digits 256 (rev (map unat bs))"

text \<open>\<open>for value.Sign() > 0 { value.DivMod(value, base62, mod); encoded = append(...) }\<close>.\<close>

fun divmod_loop :: "nat \<Rightarrow> string \<Rightarrow> string" where
  "divmod_loop v encoded =
    (if v > 0 then divmod_loop (v div 62) (encoded @ [base62Alphabet ! (v mod 62)]) else encoded)"

declare divmod_loop.simps [simp del]

text \<open>\<open>for i, j := 0, len(encoded)-1; i < j; i, j = i+1, j-1 { swap }\<close>.\<close>

fun swap_loop :: "nat \<Rightarrow> nat \<Rightarrow> 'a list \<Rightarrow> 'a list" where
  "swap_loop i j xs =
    (if i < j then swap_loop (i + 1) (j - 1) (xs[i := xs ! j, j := xs ! i]) else xs)"

declare swap_loop.simps [simp del]

definition encodeBase62 :: "8 word list \<Rightarrow> string" where
  "encodeBase62 input =
    (let v = set_bytes input
     in if v = 0 then ''0''
        else let encoded = divmod_loop v [] in swap_loop 0 (length encoded - 1) encoded)"

definition hash_token :: "string \<Rightarrow> string" where
  "hash_token plaintext = hex_encode (sha256_sum plaintext)"

text \<open>\<open>Generate\<close>, given what \<open>rand.Read\<close> does to the 32 bytes.\<close>

definition generate :: "go_err + 8 word list \<Rightarrow> go_err + generated_token" where
  "generate random =
    (case random of Inl e \<Rightarrow> Inl e
     | Inr bs \<Rightarrow>
        (let encoded = encodeBase62 bs
         in if length encoded > tokenRandomChars
            then Inl (Errorf (''token length '' @ decimal (length encoded) @ '' exceeds '' @ decimal tokenRandomChars))
            else
              let padded =
                    (if length encoded < tokenRandomChars
                     then replicate (tokenRandomChars - length encoded) CHR ''0'' @ encoded
                     else encoded);
                  plaintext = tokenPrefix @ padded
              in Inr \<lparr>Plaintext = plaintext, Hash = hash_token plaintext,
                      TokenPrefix = take 8 plaintext\<rparr>))"

text \<open>\<open>HasPrefix\<close>: whether a credential is one of these tokens.\<close>

definition HasPrefix :: "string \<Rightarrow> bool" where
  "HasPrefix token = has_prefix token tokenPrefix"

section \<open>The loops compute the positional numeral\<close>

lemma divmod_loop_eq:
  "divmod_loop v encoded = encoded @ map ((!) base62Alphabet) (to_digits 62 v)"
proof (induction v encoded rule: divmod_loop.induct)
  case (1 v encoded)
  show ?case
  proof (cases "v > 0")
    case True
    then show ?thesis
      by (simp add: divmod_loop.simps [of v encoded] to_digits_step "1.IH")
  next
    case False
    then have v: "v = 0" by simp
    show ?thesis unfolding v by (simp add: divmod_loop.simps [of 0 encoded])
  qed
qed

text \<open>The swap loop reverses the segment from \<open>i\<close> to \<open>j\<close> and leaves the rest.\<close>

lemma length_swap_loop [simp]: "length (swap_loop i j xs) = length xs"
  by (induction i j xs rule: swap_loop.induct) (subst swap_loop.simps, simp)

lemma swap_loop_nth:
  "j < length xs \<Longrightarrow> k < length xs \<Longrightarrow>
    swap_loop i j xs ! k = (if i \<le> k \<and> k \<le> j then xs ! (i + j - k) else xs ! k)"
proof (induction i j xs rule: swap_loop.induct)
  case (1 i j xs)
  show ?case
  proof (cases "i < j")
    case True
    let ?ys = "xs[i := xs ! j, j := xs ! i]"
    have "swap_loop i j xs ! k = swap_loop (i + 1) (j - 1) ?ys ! k"
      using True by (simp add: swap_loop.simps [of i j xs])
    also have "\<dots> = (if i + 1 \<le> k \<and> k \<le> j - 1 then ?ys ! (i + 1 + (j - 1) - k) else ?ys ! k)"
      using "1.prems" by (intro "1.IH" [OF True]) auto
    also have "\<dots> = (if i \<le> k \<and> k \<le> j then xs ! (i + j - k) else xs ! k)"
    proof -
      consider "k = i" | "k = j" | "i < k \<and> k < j" | "k < i" | "j < k" by linarith
      then show ?thesis
        by cases (use True "1.prems" in \<open>auto simp: nth_list_update\<close>)
    qed
    finally show ?thesis .
  next
    case False
    then have "i \<le> k \<and> k \<le> j \<Longrightarrow> i + j - k = k" by auto
    with False show ?thesis by (auto simp: swap_loop.simps [of i j xs])
  qed
qed

lemma swap_loop_rev: "xs \<noteq> [] \<Longrightarrow> swap_loop 0 (length xs - 1) xs = rev xs"
  by (rule nth_equalityI) (auto simp: swap_loop_nth rev_nth)

lemma swap_loop_map_rev:
  "0 < n \<Longrightarrow> swap_loop 0 (length (to_digits 62 n) - Suc 0) (map f (to_digits 62 n)) = map f (rev (to_digits 62 n))"
  using swap_loop_rev [of "map f (to_digits 62 n)"] by (simp add: to_digits_eq_Nil rev_map)

lemma encodeBase62_eq:
  "encodeBase62 bs =
    (if set_bytes bs = 0 then ''0'' else map ((!) base62Alphabet) (rev (to_digits 62 (set_bytes bs))))"
  by (simp add: encodeBase62_def divmod_loop_eq swap_loop_map_rev Let_def)

section \<open>Bounds\<close>

lemma unat_word_less: "unat (b :: 8 word) < 256"
proof -
  have "unat b < 2 ^ LENGTH(8)" by (rule unsigned_less)
  then show ?thesis by simp
qed

lemma set_bytes_less: "set_bytes bs < 256 ^ length bs"
  using of_digits_less [of "rev (map unat bs)" 256] by (simp add: set_bytes_def unat_word_less)

lemma set_bytes_inj: "length bs = length cs \<Longrightarrow> set_bytes bs = set_bytes cs \<Longrightarrow> bs = cs"
proof -
  assume len: "length bs = length cs" and eq: "set_bytes bs = set_bytes cs"
  have "rev (map unat bs) = rev (map unat cs)"
    by (rule of_digits_inj [of _ _ 256])
      (use len eq in \<open>auto simp: set_bytes_def unat_word_less\<close>)
  then have "map unat bs = map unat cs" by simp
  then show "bs = cs" by (rule map_injective) (simp add: inj_on_def word_unat_eq_iff)
qed

lemma length_encodeBase62: "length bs = 32 \<Longrightarrow> length (encodeBase62 bs) \<le> 43"
proof -
  assume "length bs = 32"
  then have "set_bytes bs < 256 ^ 32" using set_bytes_less [of bs] by simp
  also have "(256 :: nat) ^ 32 \<le> 62 ^ 43" by simp
  finally have "length (to_digits 62 (set_bytes bs)) \<le> 43"
    by (intro length_to_digits) simp_all
  then show ?thesis by (simp add: encodeBase62_eq)
qed

lemma encodeBase62_chars: "set (encodeBase62 bs) \<subseteq> set base62Alphabet"
proof
  fix c assume "c \<in> set (encodeBase62 bs)"
  then consider "c = CHR ''0''" | d where "d \<in> set (to_digits 62 (set_bytes bs))" "c = base62Alphabet ! d"
    by (auto simp: encodeBase62_eq split: if_splits)
  then show "c \<in> set base62Alphabet"
  proof cases
    case 1
    then show ?thesis by (simp add: base62Alphabet_def)
  next
    case (2 d)
    from 2(1) have "d < 62" by (rule to_digits_less)
    moreover have "length base62Alphabet = 62" by (simp add: base62Alphabet_def)
    ultimately show ?thesis using 2(2) nth_mem [of d base62Alphabet] by simp
  qed
qed

section \<open>Reading a numeral back\<close>

text \<open>The value a base-62 text stands for; leading zeros do not count.\<close>

definition base62_digit :: "char \<Rightarrow> nat" where
  "base62_digit c = length (takeWhile (\<lambda>x. x \<noteq> c) base62Alphabet)"

definition base62_value :: "string \<Rightarrow> nat" where
  "base62_value s = of_digits 62 (rev (map base62_digit s))"

lemma base62_digit_nth: "d < 62 \<Longrightarrow> base62_digit (base62Alphabet ! d) = d"
proof -
  assume d: "d < 62"
  have len: "length base62Alphabet = 62" and dist: "distinct base62Alphabet"
    by (simp_all add: base62Alphabet_def)
  have "takeWhile (\<lambda>x. x \<noteq> base62Alphabet ! d) base62Alphabet = take d base62Alphabet"
    by (rule takeWhile_eq_take_P_nth)
      (use d len dist in \<open>auto simp: nth_eq_iff_index_eq\<close>)
  with d len show ?thesis by (simp add: base62_digit_def)
qed

lemma base62_value_zeros: "base62_value (replicate k CHR ''0'' @ s) = base62_value s"
proof -
  have "base62_digit CHR ''0'' = 0" by (simp add: base62_digit_def base62Alphabet_def)
  then show ?thesis by (simp add: base62_value_def of_digits_append)
qed

lemma base62_value_encode: "base62_value (encodeBase62 bs) = set_bytes bs"
proof (cases "set_bytes bs = 0")
  case True
  then show ?thesis
    by (simp add: encodeBase62_eq base62_value_def base62_digit_def base62Alphabet_def)
next
  case False
  have "map (base62_digit \<circ> (!) base62Alphabet) (to_digits 62 (set_bytes bs)) = to_digits 62 (set_bytes bs)"
    by (rule map_idI) (simp add: base62_digit_nth to_digits_less)
  with False show ?thesis
    by (simp add: encodeBase62_eq base62_value_def rev_map)
qed

section \<open>What a generated token is\<close>

lemma generate_eq:
  assumes "length bs = 32"
  shows "generate (Inr bs) =
    Inr \<lparr>Plaintext = tokenPrefix @ replicate (44 - length (encodeBase62 bs)) CHR ''0'' @ encodeBase62 bs,
         Hash = hash_token (tokenPrefix @ replicate (44 - length (encodeBase62 bs)) CHR ''0'' @ encodeBase62 bs),
         TokenPrefix = take 8 (tokenPrefix @ replicate (44 - length (encodeBase62 bs)) CHR ''0'' @ encodeBase62 bs)\<rparr>"
  using length_encodeBase62 [OF assms] by (simp add: generate_def tokenRandomChars_def Let_def)

text \<open>
  C36. Given 32 random bytes, \<open>Generate\<close> never takes its length-error branch: it returns a token of
  exactly 49 bytes that starts with \<open>agyn_\<close>, continues with 44 characters of the base-62 alphabet, has
  the hash of that text as its hash and its first eight bytes as its visible prefix.
\<close>

theorem generate_ok:
  assumes "length bs = 32"
  shows "\<exists>t. generate (Inr bs) = Inr t \<and> length (Plaintext t) = 49 \<and> HasPrefix (Plaintext t)
    \<and> set (drop 5 (Plaintext t)) \<subseteq> set base62Alphabet \<and> Hash t = hash_token (Plaintext t)
    \<and> TokenPrefix t = take 8 (Plaintext t)"
proof -
  have zero: "CHR ''0'' \<in> set base62Alphabet" by (simp add: base62Alphabet_def)
  show ?thesis
    using length_encodeBase62 [OF assms] encodeBase62_chars [of bs] zero
    by (auto simp: generate_eq [OF assms] HasPrefix_def has_prefix_def tokenPrefix_def)
qed

theorem generate_ok_witness:
  "\<exists>t. generate (Inr (replicate 32 (7 :: 8 word))) = Inr t \<and> length (Plaintext t) = 49"
  using generate_ok [of "replicate 32 7"] by auto

text \<open>
  C37. The token text determines the random bytes: reading the 44 characters after the prefix as a
  base-62 number gives back the big-endian value of the 32 bytes, so two generated tokens with the
  same text come from the same bytes. Nothing of the 256 bits is lost in the encoding.
\<close>

theorem generate_injective:
  assumes "length bs = 32" and "length cs = 32"
    and "generate (Inr bs) = Inr t" and "generate (Inr cs) = Inr u"
  shows "base62_value (drop 5 (Plaintext t)) = set_bytes bs \<and> (Plaintext t = Plaintext u \<longleftrightarrow> bs = cs)"
proof -
  have decoded: "base62_value (drop 5 (Plaintext t')) = set_bytes ds"
    if "length ds = 32" and "generate (Inr ds) = Inr t'" for ds t'
    using that(2) by (auto simp: generate_eq [OF that(1)] tokenPrefix_def base62_value_zeros
        base62_value_encode)
  have "bs = cs" if "Plaintext t = Plaintext u"
    using decoded [OF assms(1,3)] decoded [OF assms(2,4)] that
    by (intro set_bytes_inj) (simp_all add: assms)
  with assms decoded [OF assms(1,3)] show ?thesis by auto
qed

theorem generate_injective_witness:
  "\<exists>t u. generate (Inr (replicate 32 (0 :: 8 word))) = Inr t \<and> generate (Inr (replicate 32 1)) = Inr u
    \<and> Plaintext t \<noteq> Plaintext u"
proof -
  let ?z = "replicate 32 (0 :: 8 word)" and ?o = "replicate 32 (1 :: 8 word)"
  obtain t u where t: "generate (Inr ?z) = Inr t" and u: "generate (Inr ?o) = Inr u"
    using generate_eq [of ?z] generate_eq [of ?o] by auto
  have "Plaintext t = Plaintext u \<longleftrightarrow> ?z = ?o"
    using generate_injective [of ?z ?o, OF _ _ t u] by simp
  with t u show ?thesis by (auto simp: replicate_eq_replicate)
qed

end
