(* ===== verification/Server.thy ===== *)
theory Server
  imports Converter Username Api_Token
begin

text \<open>
  \<open>internal/server/server.go\<close>, the parts every handler uses: who is calling, the cluster-admin
  check, the cluster role, parsing of ids and page tokens, and the translation of store errors to
  gRPC statuses. The service's own fields are the environment: \<open>store\<close> is the database, the four
  clients are functions of it.
\<close>

definition identityObjectPrefix :: string where "identityObjectPrefix = ''identity:''"
definition clusterObject :: string where "clusterObject = ''cluster:global''"
definition adminRelation :: string where "adminRelation = ''admin''"

section \<open>The caller\<close>

definition identityIDFromContext :: "'x env \<Rightarrow> ctx \<Rightarrow> go_err + uuid" where
  "identityIDFromContext E c =
    (case incoming c of
       None \<Rightarrow> Inl (Errorf ''no metadata in context'')
     | Some md \<Rightarrow>
        (let values = md ''x-identity-id''
         in if length values = 0 \<or> values ! 0 = []
            then Inl (Errorf ''x-identity-id not found in metadata'')
            else e_uuid_parse E (values ! 0)))"

text \<open>\<open>identityIDFromContext\<close> as the handlers call it, with the status they answer.\<close>

definition caller :: "'x env \<Rightarrow> ctx \<Rightarrow> (uuid \<Rightarrow> ('w, 'a) go) \<Rightarrow> ('w, 'a) go" where
  "caller E c k =
    call (lift (identityIDFromContext E c)) (Statusf CodeUnauthenticated ''identity not available'') k"

definition admin_tuple :: "'x env \<Rightarrow> uuid \<Rightarrow> tuple_key" where
  "admin_tuple E i =
    \<lparr>tk_user = identityObjectPrefix @ e_uuid_string E i, tk_relation = adminRelation, tk_object = clusterObject\<rparr>"

definition checkClusterAdmin :: "'x env \<Rightarrow> ctx \<Rightarrow> uuid \<Rightarrow> ('x world, bool) go" where
  "checkClusterAdmin E c identityID = ext_call (e_check E c (admin_tuple E identityID))"

definition requireClusterAdmin :: "'x env \<Rightarrow> ctx \<Rightarrow> ('x world, uuid) go" where
  "requireClusterAdmin E c =
    call (lift (identityIDFromContext E c)) (Statusf CodeUnauthenticated ''identity not available'') (\<lambda>identityID.
    call (checkClusterAdmin E c identityID) (Statusf CodeInternal ''authorization check'') (\<lambda>allowed.
    if \<not> allowed then fail (Status CodePermissionDenied ''cluster admin required'')
    else ret identityID))"

definition resolveClusterRole :: "'x env \<Rightarrow> ctx \<Rightarrow> uuid \<Rightarrow> ('x world, cluster_role) go" where
  "resolveClusterRole E c identityID =
    call (checkClusterAdmin E c identityID) id (\<lambda>allowed.
    if allowed then ret CLUSTER_ROLE_ADMIN else ret CLUSTER_ROLE_UNSPECIFIED)"

text \<open>The generated \<open>String\<close> method of the enum.\<close>

definition cluster_role_string :: "cluster_role \<Rightarrow> string" where
  "cluster_role_string role =
    (case role of
       CLUSTER_ROLE_UNSPECIFIED \<Rightarrow> ''CLUSTER_ROLE_UNSPECIFIED''
     | CLUSTER_ROLE_ADMIN \<Rightarrow> ''CLUSTER_ROLE_ADMIN''
     | CLUSTER_ROLE_OTHER n \<Rightarrow> (if n < 0 then ''-'' else []) @ decimal (nat \<bar>n\<bar>))"

definition syncClusterRole :: "'x env \<Rightarrow> ctx \<Rightarrow> uuid \<Rightarrow> cluster_role \<Rightarrow> ('x world, unit) go" where
  "syncClusterRole E c identityID role =
    call (lift (case role of
        CLUSTER_ROLE_ADMIN \<Rightarrow> Inr \<lparr>wr_writes = [admin_tuple E identityID], wr_deletes = []\<rparr>
      | CLUSTER_ROLE_UNSPECIFIED \<Rightarrow> Inr \<lparr>wr_writes = [], wr_deletes = [admin_tuple E identityID]\<rparr>
      | CLUSTER_ROLE_OTHER n \<Rightarrow> Inl (Errorf (''unsupported cluster role: '' @ cluster_role_string role)))) id
      (\<lambda>request.
    attempt (ext_call (e_write E c request)) (\<lambda>written.
    case written of
      Inr _ \<Rightarrow> ret ()
    | Inl err \<Rightarrow>
       if e_status_code E err \<in> {CodeAlreadyExists, CodeNotFound} then ret () else fail err))"

section \<open>Requests and errors\<close>

definition decodePageCursor :: "'x env \<Rightarrow> string \<Rightarrow> go_err + page_cursor option" where
  "decodePageCursor E token =
    (if token = [] then Inr None
     else case DecodePageToken E token of
       Inl e \<Rightarrow> Inl e
     | Inr i \<Rightarrow> Inr (Some (PageCursor i)))"

text \<open>\<open>None\<close> when the conversion of an item panics.\<close>

definition mapListResult ::
  "'x env \<Rightarrow> 't list \<Rightarrow> page_cursor option \<Rightarrow> ('t \<Rightarrow> 'p option) \<Rightarrow> ('p list \<times> string) option" where
  "mapListResult E items nextCursor convert =
    (case all_some (map convert items) of
       None \<Rightarrow> None
     | Some results \<Rightarrow>
        (case nextCursor of
           None \<Rightarrow> Some (results, [])
         | Some c \<Rightarrow> Some (results, EncodePageToken E (AfterID c))))"

definition validateClusterRole :: "cluster_role \<Rightarrow> go_err + unit" where
  "validateClusterRole role =
    (case role of
       CLUSTER_ROLE_ADMIN \<Rightarrow> Inr ()
     | CLUSTER_ROLE_UNSPECIFIED \<Rightarrow> Inr ()
     | CLUSTER_ROLE_OTHER n \<Rightarrow> Inl (Errorf (''unsupported role '' @ cluster_role_string role)))"

definition parseUUID :: "'x env \<Rightarrow> string \<Rightarrow> go_err + uuid" where
  "parseUUID E v =
    (if v = [] then Inl (Errorf ''value is empty'')
     else case e_uuid_parse E v of Inl e \<Rightarrow> Inl e | Inr i \<Rightarrow> Inr i)"

definition toStatusError :: "go_err \<Rightarrow> go_err" where
  "toStatusError err =
    (case as_not_found err of
       Some resource \<Rightarrow> Status CodeNotFound (not_found_message resource)
     | None \<Rightarrow>
        (case as_already_exists err of
           Some resource \<Rightarrow> Status CodeAlreadyExists (already_exists_message resource)
         | None \<Rightarrow> Statusf CodeInternal ''internal error'' err))"

definition isAlreadyExists :: "go_err \<Rightarrow> string \<Rightarrow> bool" where
  "isAlreadyExists err resource =
    (case as_already_exists err of None \<Rightarrow> False | Some r \<Rightarrow> r = resource)"

section \<open>Trying the candidate names\<close>

text \<open>
  The loop of \<open>ResolveOrCreateUser\<close> and of \<open>CreateUser\<close>: take the next candidate, run the store
  call with it, and go on only when the name is taken. Each turn uses up a candidate, so the
  loop ends.
\<close>

lemma attempt_cong:
  "m w = m' w \<Longrightarrow> (\<And>r w'. m w = Some (r, w') \<Longrightarrow> k r w' = k' r w') \<Longrightarrow> attempt m k w = attempt m' k' w"
  by (auto simp: attempt_def split: option.split)

lemma call_fun_cong:
  "m w = m' w \<Longrightarrow> f = f' \<Longrightarrow> (\<And>x w'. m w = Some (Inr x, w') \<Longrightarrow> k x w' = k' x w')
    \<Longrightarrow> call m f k w = call m' f' k' w"
  by (auto intro: call_cong)

declare attempt_cong [fundef_cong] call_fun_cong [fundef_cong]

function try_usernames ::
  "'x env \<Rightarrow> (string \<Rightarrow> ('x world, 'a) go) \<Rightarrow> candidate_iterator \<Rightarrow> ('x world, 'a) go" where
  "try_usernames E create iter w =
    call (next_candidate (random_suffix (\<lambda>n. ext_call (e_rand_int E n))) iter)
      (Statusf CodeInternal ''derive username'')
      (\<lambda>next w1. case next of (candidate, iter') \<Rightarrow>
        (case candidate of
           None \<Rightarrow> fail (Status CodeInternal ''allocate username'') w1
         | Some username \<Rightarrow>
            attempt (create username) (\<lambda>r w2. case r of
                Inr x \<Rightarrow> ret x w2
              | Inl err \<Rightarrow>
                  if isAlreadyExists err ''username'' then try_usernames E create iter' w2
                  else fail (toStatusError err) w2) w1)) w"
  by auto
termination
  by (relation "measure (\<lambda>(E, create, iter, w). candidates_left iter)")
    (auto dest: next_candidate_step(3))

declare try_usernames.simps [simp del]

lemma try_usernames_run:
  "try_usernames E create iter =
    call (next_candidate (random_suffix (\<lambda>n. ext_call (e_rand_int E n))) iter)
      (Statusf CodeInternal ''derive username'')
      (\<lambda>next. case next of (candidate, iter') \<Rightarrow>
        (case candidate of
           None \<Rightarrow> fail (Status CodeInternal ''allocate username'')
         | Some username \<Rightarrow>
            attempt (create username) (\<lambda>r. case r of
                Inr x \<Rightarrow> ret x
              | Inl err \<Rightarrow>
                  if isAlreadyExists err ''username'' then try_usernames E create iter'
                  else fail (toStatusError err))))"
proof
  fix w
  show "try_usernames E create iter w =
    call (next_candidate (random_suffix (\<lambda>n. ext_call (e_rand_int E n))) iter)
      (Statusf CodeInternal ''derive username'')
      (\<lambda>next. case next of (candidate, iter') \<Rightarrow>
        (case candidate of
           None \<Rightarrow> fail (Status CodeInternal ''allocate username'')
         | Some username \<Rightarrow>
            attempt (create username) (\<lambda>r. case r of
                Inr x \<Rightarrow> ret x
              | Inl err \<Rightarrow>
                  if isAlreadyExists err ''username'' then try_usernames E create iter'
                  else fail (toStatusError err)))) w"
    by (subst try_usernames.simps, rule call_cong [OF refl])
      (auto simp: attempt_def split: option.split sum.split)
qed

text \<open>The ways a turn of the loop can go.\<close>

lemma try_usernames_cases:
  assumes "try_usernames E create iter w = Some (r, w')"
  obtains (draw) e where "next_candidate (random_suffix (\<lambda>n. ext_call (e_rand_int E n))) iter w = Some (Inl e, w')"
        "r = Inl (Statusf CodeInternal ''derive username'' e)"
    | (exhausted) iter' where "next_candidate (random_suffix (\<lambda>n. ext_call (e_rand_int E n))) iter w
          = Some (Inr (None, iter'), w')" "r = Inl (Status CodeInternal ''allocate username'')"
    | (found) name iter' w1 x where "next_candidate (random_suffix (\<lambda>n. ext_call (e_rand_int E n))) iter w
          = Some (Inr (Some name, iter'), w1)" "create name w1 = Some (Inr x, w')" "r = Inr x"
    | (failed) name iter' w1 err where "next_candidate (random_suffix (\<lambda>n. ext_call (e_rand_int E n))) iter w
          = Some (Inr (Some name, iter'), w1)" "create name w1 = Some (Inl err, w')" "r = Inl (toStatusError err)"
    | (taken) name iter' w1 err w2 where "next_candidate (random_suffix (\<lambda>n. ext_call (e_rand_int E n))) iter w
          = Some (Inr (Some name, iter'), w1)" "create name w1 = Some (Inl err, w2)"
        "isAlreadyExists err ''username''" "try_usernames E create iter' w2 = Some (r, w')"
proof -
  let ?next = "next_candidate (random_suffix (\<lambda>n. ext_call (e_rand_int E n))) iter"
  obtain p w1 where p: "?next w = Some (p, w1)"
    using assms by (cases "?next w") (auto simp: try_usernames_run [of _ _ iter] call_def attempt_def)
  show thesis
  proof (cases p)
    case (Inl e)
    with p assms show thesis by (intro draw) (auto simp: try_usernames_run [of _ _ iter] call_err)
  next
    case (Inr q)
    obtain c iter' where q: "q = (c, iter')" by fastforce
    show thesis
    proof (cases c)
      case None
      with p Inr q assms show thesis by (intro exhausted) (auto simp: try_usernames_run [of _ _ iter] call_ok)
    next
      case (Some name)
      obtain a w2 where a: "create name w1 = Some (a, w2)"
        using assms p Inr q Some by (cases "create name w1") (auto simp: try_usernames_run [of _ _ iter] call_ok attempt_def)
      have n: "?next w = Some (Inr (Some name, iter'), w1)" using p Inr q Some by simp
      show thesis
      proof (cases a)
        case (Inl err)
        with n a assms failed taken show thesis
          by (cases "isAlreadyExists err ''username''") (auto simp: try_usernames_run [of _ _ iter] call_ok attempt_def)
      next
        case (Inr x)
        with n a assms found show thesis
          by (auto simp: try_usernames_run [of _ _ iter] call_ok attempt_def)
      qed
    qed
  qed
qed

text \<open>What \<open>rand.Int\<close> promises: a number below its bound.\<close>

definition rand_int_ok :: "'x env \<Rightarrow> bool" where
  "rand_int_ok E \<longleftrightarrow> (\<forall>n x d x'. e_rand_int E n x = (Inr d, x') \<longrightarrow> d < n)"

lemma returns_random_suffix:
  assumes "rand_int_ok E"
  shows "returns (random_suffix (\<lambda>n. ext_call (e_rand_int E n)) k)"
proof (induction k)
  case 0
  then show ?case by (simp add: returns_def)
next
  case (Suc k)
  have "\<exists>r w'. random_suffix (\<lambda>n. ext_call (e_rand_int E n)) (Suc k) w = Some (r, w')" for w
  proof -
    obtain r x where r: "e_rand_int E (length suffix_letters) (ext w) = (r, x)" by fastforce
    have d: "d < length suffix_letters" if "r = Inr d" for d
      using assms r that by (auto simp: rand_int_ok_def)
    obtain r2 w2 where "random_suffix (\<lambda>n. ext_call (e_rand_int E n)) k (w\<lparr>ext := x\<rparr>) = Some (r2, w2)"
      using returnsD [OF Suc.IH] by blast
    then show ?thesis
      using r d by (cases r; cases r2) (auto simp: call_def attempt_def ext_call_def)
  qed
  then show ?case by (rule returnsI)
qed

lemma short_suffix_total: "length sfx \<le> 32 \<Longrightarrow> usernameWithSuffix b sfx \<noteq> None"
  by (rule usernameWithSuffix_cases [of sfx b]) auto

lemma returns_next_candidate:
  assumes "rand_int_ok E"
  shows "returns (next_candidate (random_suffix (\<lambda>n. ext_call (e_rand_int E n))) iter)"
proof -
  let ?rnd = "random_suffix (\<lambda>n. ext_call (e_rand_int E n)) usernameRandomSuffixLen"
  have numbered: "usernameWithSuffix b (''-'' @ decimal (nextIndex iter + 1)) \<noteq> None"
    if "nextIndex iter < usernameNumericSuffixMax" for b
    using that length_decimal_two [of "nextIndex iter + 1"]
    by (intro short_suffix_total) (simp add: username_bounds)
  have random: "returns (call ?rnd id (\<lambda>sfx. call (need (usernameWithSuffix b (''-'' @ sfx))) id (k sfx)))"
    if k: "\<And>sfx c. returns (k sfx c)" for b k
  proof (rule returnsI)
    fix w
    obtain r w1 where r: "?rnd w = Some (r, w1)" using returnsD [OF returns_random_suffix [OF assms]] by blast
    show "\<exists>r w'. call ?rnd id (\<lambda>sfx. call (need (usernameWithSuffix b (''-'' @ sfx))) id (k sfx)) w = Some (r, w')"
    proof (cases r)
      case (Inl e)
      with r show ?thesis by (simp add: call_err)
    next
      case (Inr sfx)
      have "length sfx = usernameRandomSuffixLen"
        using random_suffix_source [of "\<lambda>n. ext_call (e_rand_int E n)"] r Inr by (auto simp: suffix_source_def)
      then obtain c where "usernameWithSuffix b (''-'' @ sfx) = Some c"
        using short_suffix_total [of "''-'' @ sfx" b] by (auto simp: username_bounds)
      with r Inr show ?thesis using returnsD [OF k] by (simp add: call_ok)
    qed
  qed
  show ?thesis
    unfolding next_candidate_def
    by (intro returns_branches returns_ret returns_call returns_need numbered random)
qed

lemma returns_try_usernames [returns_intro]:
  assumes "rand_int_ok E" and create: "\<And>u. returns (create u)"
  shows "returns (try_usernames E create iter)"
proof (induction "candidates_left iter" arbitrary: iter rule: less_induct)
  case less
  let ?next = "next_candidate (random_suffix (\<lambda>n. ext_call (e_rand_int E n))) iter"
  show ?case
  proof (rule returnsI)
    fix w
    obtain r w1 where r: "?next w = Some (r, w1)" using returnsD [OF returns_next_candidate [OF assms(1)]] by blast
    show "\<exists>r w'. try_usernames E create iter w = Some (r, w')"
    proof (cases r)
      case (Inl e)
      with r show ?thesis by (simp add: try_usernames_run [of _ _ iter] call_err)
    next
      case (Inr p)
      obtain c iter' where p: "p = (c, iter')" by fastforce
      show ?thesis
      proof (cases c)
        case None
        with r Inr p show ?thesis by (simp add: try_usernames_run [of _ _ iter] call_ok)
      next
        case (Some username)
        obtain r2 w2 where r2: "create username w1 = Some (r2, w2)" using returnsD [OF create] by blast
        have "?next w = Some (Inr (Some username, iter'), w1)" using r Inr p Some by simp
        then have "candidates_left iter' < candidates_left iter"
          using next_candidate_step(3) by fastforce
        then obtain r3 w3 where "try_usernames E create iter' w2 = Some (r3, w3)"
          using returnsD [OF less] by blast
        with r Inr p Some r2 show ?thesis
          by (cases r2) (simp_all add: try_usernames_run [of _ _ iter] call_ok attempt_def)
      qed
    qed
  qed
qed

text \<open>
  What the loop may change: what the draws of random letters and the store call with a valid name may.
\<close>

lemma within_random_suffix:
  assumes R: "state_preorder R" and draw: "\<And>n. within R (rand_int n)"
  shows "within R (random_suffix rand_int k)"
proof (induction k)
  case 0
  then show ?case using state_preorder.preorder_refl [OF R] by (simp add: within_def)
next
  case (Suc k)
  have "within R (call (rand_int (length suffix_letters)) id (\<lambda>d.
    call (need (if d < length suffix_letters then Some (suffix_letters ! d) else None)) id (\<lambda>c.
    call (random_suffix rand_int k) id (\<lambda>cs. ret (c # cs)))))"
    by (intro state_preorder.within_rules [OF R] draw Suc.IH)
  then show ?case by (simp add: within_def)
qed

lemma within_next_candidate:
  assumes R: "state_preorder R" and draw: "\<And>n. within R (rand_int n)"
  shows "within R (next_candidate (random_suffix rand_int) iter)"
  unfolding next_candidate_def
  by (intro state_preorder.within_rules [OF R] within_random_suffix [OF R] draw)

lemma within_try_usernames:
  assumes R: "state_preorder R" and draw: "\<And>n. within R (ext_call (e_rand_int E n))"
    and create: "\<And>u. validateUsername u = Inr () \<Longrightarrow> within R (create u)"
  shows "validateUsername (base iter) = Inr () \<Longrightarrow> within R (try_usernames E create iter)"
proof (induction "candidates_left iter" arbitrary: iter rule: less_induct)
  case less
  let ?next = "next_candidate (random_suffix (\<lambda>n. ext_call (e_rand_int E n))) iter"
  have tr: "R u v \<Longrightarrow> R v x \<Longrightarrow> R u x" for u v x using R by (rule state_preorder.preorder_trans)
  have R: "?next v = Some (x, v') \<Longrightarrow> R v v'" for v x v'
    using within_next_candidate [OF R, of "\<lambda>n. ext_call (e_rand_int E n)" iter, OF draw] by (simp add: within_def)
  have step: "R v v' \<and> (\<exists>x. create name v' = Some (x, v'')) \<longrightarrow> R v v''"
      if "?next v = Some (Inr (Some name, iter'), v')" for v v' v'' name iter'
    using create [OF next_candidate_chars [OF less.prems random_suffix_source that]] tr
    unfolding within_def by blast
  have "R w w'" if run: "try_usernames E create iter w = Some (r, w')" for w r w'
    using run
  proof (cases rule: try_usernames_cases)
    case (taken name iter' w1 err w2)
    have "R w w2" using step [OF taken(1)] R [OF taken(1)] taken(2) by blast
    moreover have "within R (try_usernames E create iter')"
      by (rule less.hyps) (use next_candidate_step [OF taken(1)] less.prems in auto)
    ultimately show ?thesis using taken(4) tr unfolding within_def by blast
  qed (use R step in blast)+
  then show ?case by (simp add: within_def)
qed

end
