(* ===== verification/User_Handlers.thy ===== *)
theory User_Handlers
  imports Server
begin

text \<open>
  The handlers of \<open>internal/server/server.go\<close> for users: sign-in, reading, searching, listing,
  creating, updating and deleting. Requests and responses are records of what the code reads and
  writes of them; a field of a pointer type is an option.
\<close>

section \<open>Messages\<close>

record resolve_or_create_user_request =
  rcu_OidcSubject :: string
  rcu_PreferredUsername :: string
  rcu_Email :: string
  rcu_Name :: string
  rcu_PhotoUrl :: string

record update_user_request =
  uur_IdentityId :: string
  uur_Name :: "string option"
  uur_Email :: "string option"
  uur_Nickname :: "string option"
  uur_PhotoUrl :: "string option"
  uur_Username :: "string option"
  uur_ClusterRole :: "cluster_role option"

record update_me_request =
  umr_Name :: "string option"
  umr_Username :: "string option"

record search_users_request =
  sur_Prefix :: string
  sur_Limit :: int32

record list_request =
  lr_PageSize :: int32
  lr_PageToken :: string

record create_user_request =
  cur_OidcSubject :: string
  cur_Name :: string
  cur_Nickname :: string
  cur_PhotoUrl :: string
  cur_Username :: "string option"
  cur_ClusterRole :: cluster_role

record proto_user_directory_entry =
  pude_IdentityId :: string
  pude_Username :: string
  pude_Name :: string
  pude_PhotoUrl :: string

section \<open>Sign-in\<close>

text \<open>
  After the store has the user: register the identity, undo the creation when that fails for a new
  user, and carry on when it fails for an old one.
\<close>

definition register_resolved ::
  "'x env \<Rightarrow> ctx \<Rightarrow> user \<Rightarrow> bool \<Rightarrow> ('x world, proto_user \<times> bool) go" where
  "register_resolved E c u created =
    attempt (ext_call (e_register_identity E c
        \<lparr>ri_identity_id = e_uuid_string E (meta_ID (usr_Meta u)), ri_identity_type = IDENTITY_TYPE_USER\<rparr>))
      (\<lambda>registered.
    case registered of
      Inl err \<Rightarrow>
        if e_status_code E err \<noteq> CodeAlreadyExists \<and> created then
          attempt (store_DeleteUser E (meta_ID (usr_Meta u))) (\<lambda>_.
          fail (Statusf CodeInternal ''register identity'' err))
        else ret (toProtoUser E u, created)
    | Inr _ \<Rightarrow> ret (toProtoUser E u, created))"

definition ResolveOrCreateUser ::
  "'x env \<Rightarrow> ctx \<Rightarrow> resolve_or_create_user_request \<Rightarrow> ('x world, proto_user \<times> bool) go" where
  "ResolveOrCreateUser E c req =
    (let oidcSubject = rcu_OidcSubject req
     in if oidcSubject = [] then fail (Status CodeInvalidArgument ''oidc_subject must be provided'')
        else
          let baseUsername = deriveUsernameBase (rcu_PreferredUsername req) (rcu_Email req) (rcu_Name req) oidcSubject;
              iterator = newUsernameCandidateIterator baseUsername;
              input = (\<lambda>candidate.
                \<lparr>ui_OIDCSubject = oidcSubject, ui_Name = rcu_Name req, ui_Email = rcu_Email req,
                 ui_Nickname = [], ui_Username = candidate, ui_PhotoURL = rcu_PhotoUrl req\<rparr>)
          in call (try_usernames E (\<lambda>candidate. store_ResolveOrCreateUser E (input candidate)) iterator) id
               (\<lambda>(u, created). register_resolved E c u created))"

section \<open>Reading\<close>

definition GetUser :: "'x env \<Rightarrow> ctx \<Rightarrow> string \<Rightarrow> ('x world, proto_user \<times> cluster_role) go" where
  "GetUser E c identity_id =
    call (requireClusterAdmin E c) id (\<lambda>_.
    call (lift (parseUUID E identity_id)) (Statusf CodeInvalidArgument ''identity_id'') (\<lambda>i.
    call (store_GetUser E i) toStatusError (\<lambda>u.
    call (resolveClusterRole E c i) (Statusf CodeInternal ''authorization check'') (\<lambda>role.
    ret (toProtoUser E u, role)))))"

definition GetUserByOIDCSubject :: "'x env \<Rightarrow> ctx \<Rightarrow> string \<Rightarrow> ('x world, proto_user) go" where
  "GetUserByOIDCSubject E c oidcSubject =
    (if oidcSubject = [] then fail (Status CodeInvalidArgument ''oidc_subject must be provided'')
     else
       call (store_GetUserByOIDCSubject E oidcSubject) toStatusError (\<lambda>u.
       ret (toProtoUser E u)))"

text \<open>The loop that parses the ids, with the index for the message.\<close>

fun parse_ids :: "'x env \<Rightarrow> nat \<Rightarrow> string list \<Rightarrow> uuid list \<Rightarrow> go_err + uuid list" where
  "parse_ids E n [] ids = Inr ids"
| "parse_ids E n (identityID # rest) ids =
    (case parseUUID E identityID of
       Inl err \<Rightarrow> Inl (Statusf CodeInvalidArgument (''identity_ids['' @ decimal n @ '']'') err)
     | Inr i \<Rightarrow> parse_ids E (n + 1) rest (ids @ [i]))"

definition BatchGetUsers :: "'x env \<Rightarrow> ctx \<Rightarrow> string list \<Rightarrow> ('x world, proto_user list) go" where
  "BatchGetUsers E c identityIDs =
    (if length identityIDs = 0 then ret []
     else if length identityIDs > 100
     then fail (Status CodeInvalidArgument
       (''batch size '' @ decimal (length identityIDs) @ '' exceeds maximum of 100''))
     else
       call (lift (parse_ids E 0 identityIDs [])) id (\<lambda>ids.
       call (store_BatchGetUsers E ids) toStatusError (\<lambda>us.
       ret (map (toProtoUser E) us))))"

definition GetMe :: "'x env \<Rightarrow> ctx \<Rightarrow> ('x world, proto_user \<times> cluster_role) go" where
  "GetMe E c =
    caller E c (\<lambda>identityID.
    call (store_GetUser E identityID) toStatusError (\<lambda>u.
    call (resolveClusterRole E c identityID) (Statusf CodeInternal ''authorization check'') (\<lambda>role.
    ret (toProtoUser E u, role))))"

definition toProtoDirectoryEntry :: "'x env \<Rightarrow> user_directory_entry \<Rightarrow> proto_user_directory_entry" where
  "toProtoDirectoryEntry E entry =
    \<lparr>pude_IdentityId = e_uuid_string E (ude_IdentityID entry), pude_Username = ude_Username entry,
     pude_Name = ude_Name entry, pude_PhotoUrl = ude_PhotoURL entry\<rparr>"

definition SearchUsers ::
  "'x env \<Rightarrow> ctx \<Rightarrow> search_users_request \<Rightarrow> ('x world, proto_user_directory_entry list) go" where
  "SearchUsers E c req =
    caller E c (\<lambda>_.
    call (lift (validateUsernamePrefix (sur_Prefix req))) (Statusf CodeInvalidArgument ''prefix'') (\<lambda>_.
    let limit = (if sur_Limit req = 0 then usernameSearchDefault else sur_Limit req)
    in if sint limit < 0 then fail (Status CodeInvalidArgument ''limit must be positive'')
       else if sint limit > sint usernameSearchMax
       then fail (Status CodeInvalidArgument (''limit must be <= '' @ decimal (unat usernameSearchMax)))
       else
         call (store_SearchUsers E (sur_Prefix req) limit) toStatusError (\<lambda>entries.
         ret (map (toProtoDirectoryEntry E) entries))))"

definition ListUsers :: "'x env \<Rightarrow> ctx \<Rightarrow> list_request \<Rightarrow> ('x world, proto_user list \<times> string) go" where
  "ListUsers E c req =
    call (requireClusterAdmin E c) id (\<lambda>_.
    call (lift (decodePageCursor E (lr_PageToken req))) (Statusf CodeInvalidArgument ''invalid page_token'') (\<lambda>cursor.
    call (store_ListUsers E (lr_PageSize req) cursor) toStatusError (\<lambda>result.
    need (mapListResult E (fst result) (snd result) (\<lambda>u. Some (toProtoUser E u))))))"

section \<open>Updating\<close>

definition UpdateUser :: "'x env \<Rightarrow> ctx \<Rightarrow> update_user_request \<Rightarrow> ('x world, proto_user) go" where
  "UpdateUser E c req =
    call (requireClusterAdmin E c) id (\<lambda>_.
    call (lift (parseUUID E (uur_IdentityId req))) (Statusf CodeInvalidArgument ''identity_id'') (\<lambda>i.
    call (lift (case uur_ClusterRole req of None \<Rightarrow> Inr () | Some role \<Rightarrow> validateClusterRole role))
      (Statusf CodeInvalidArgument ''cluster_role'') (\<lambda>_.
    if uur_Name req = None \<and> uur_Email req = None \<and> uur_Nickname req = None \<and> uur_PhotoUrl req = None
       \<and> uur_ClusterRole req = None \<and> uur_Username req = None
    then fail (Status CodeInvalidArgument ''at least one field must be provided'')
    else
      call (lift (case uur_Username req of None \<Rightarrow> Inr () | Some v \<Rightarrow> validateUsername v))
        (Statusf CodeInvalidArgument ''username'') (\<lambda>_.
      let update = \<lparr>uu_Name = uur_Name req, uu_Email = uur_Email req, uu_Nickname = uur_Nickname req,
                    uu_Username = uur_Username req, uu_PhotoURL = uur_PhotoUrl req\<rparr>;
          updateUser = (uur_Name req \<noteq> None \<or> uur_Email req \<noteq> None \<or> uur_Nickname req \<noteq> None
                        \<or> uur_PhotoUrl req \<noteq> None \<or> uur_Username req \<noteq> None)
      in
      call (if updateUser then store_UpdateUser E i update else store_GetUser E i) toStatusError (\<lambda>u.
      call (case uur_ClusterRole req of None \<Rightarrow> ret () | Some role \<Rightarrow> syncClusterRole E c i role)
        (Statusf CodeInternal ''sync cluster role'') (\<lambda>_.
      ret (toProtoUser E u)))))))"

definition UpdateMe :: "'x env \<Rightarrow> ctx \<Rightarrow> update_me_request \<Rightarrow> ('x world, proto_user \<times> cluster_role) go" where
  "UpdateMe E c req =
    caller E c (\<lambda>identityID.
    if umr_Name req = None \<and> umr_Username req = None
    then fail (Status CodeInvalidArgument ''at least one field must be provided'')
    else
      call (lift (case umr_Username req of None \<Rightarrow> Inr () | Some v \<Rightarrow> validateUsername v))
        (Statusf CodeInvalidArgument ''username'') (\<lambda>_.
      call (store_UpdateUser E identityID
          \<lparr>uu_Name = umr_Name req, uu_Email = None, uu_Nickname = None, uu_Username = umr_Username req,
           uu_PhotoURL = None\<rparr>) toStatusError (\<lambda>u.
      call (resolveClusterRole E c identityID) (Statusf CodeInternal ''authorization check'') (\<lambda>role.
      ret (toProtoUser E u, role)))))"

section \<open>Creating and deleting\<close>

text \<open>The user row, under the name asked for or under the first free candidate.\<close>

definition create_named :: "'x env \<Rightarrow> create_user_request \<Rightarrow> ('x world, user) go" where
  "create_named E req =
    (let input = (\<lambda>username.
          \<lparr>ui_OIDCSubject = cur_OidcSubject req, ui_Name = cur_Name req, ui_Email = [],
           ui_Nickname = cur_Nickname req, ui_Username = username, ui_PhotoURL = cur_PhotoUrl req\<rparr>)
     in case cur_Username req of
          Some v \<Rightarrow>
            call (lift (validateUsername v)) (Statusf CodeInvalidArgument ''username'') (\<lambda>_.
            call (store_CreateUser E (input v)) toStatusError ret)
        | None \<Rightarrow>
            try_usernames E (\<lambda>candidate. store_CreateUser E (input candidate))
              (newUsernameCandidateIterator (deriveUsernameBase [] [] (cur_Name req) (cur_OidcSubject req))))"

text \<open>Undo the creation and answer the error.\<close>

definition undo_create :: "'x env \<Rightarrow> user \<Rightarrow> go_err \<Rightarrow> ('x world, 'a) go" where
  "undo_create E u err = attempt (store_DeleteUser E (meta_ID (usr_Meta u))) (\<lambda>_. fail err)"

text \<open>What follows the insertion: the identity, and the administrator role if it was asked for.\<close>

definition finish_create :: "'x env \<Rightarrow> ctx \<Rightarrow> create_user_request \<Rightarrow> user \<Rightarrow> ('x world, proto_user) go" where
  "finish_create E c req u =
    attempt (ext_call (e_register_identity E c
        \<lparr>ri_identity_id = e_uuid_string E (meta_ID (usr_Meta u)), ri_identity_type = IDENTITY_TYPE_USER\<rparr>))
      (\<lambda>registered.
    case registered of
      Inl err \<Rightarrow> undo_create E u (Statusf CodeInternal ''register identity'' err)
    | Inr _ \<Rightarrow>
       if cur_ClusterRole req = CLUSTER_ROLE_ADMIN then
         attempt (syncClusterRole E c (meta_ID (usr_Meta u)) (cur_ClusterRole req)) (\<lambda>synced.
         case synced of
           Inl err \<Rightarrow> undo_create E u (Statusf CodeInternal ''sync cluster role'' err)
         | Inr _ \<Rightarrow> ret (toProtoUser E u))
       else ret (toProtoUser E u))"

definition CreateUser :: "'x env \<Rightarrow> ctx \<Rightarrow> create_user_request \<Rightarrow> ('x world, proto_user) go" where
  "CreateUser E c req =
    call (requireClusterAdmin E c) id (\<lambda>_.
    if cur_OidcSubject req = [] then fail (Status CodeInvalidArgument ''oidc_subject must be provided'')
    else
      call (lift (validateClusterRole (cur_ClusterRole req))) (Statusf CodeInvalidArgument ''cluster_role'') (\<lambda>_.
      call (create_named E req) id (finish_create E c req)))"

definition DeleteUser :: "'x env \<Rightarrow> ctx \<Rightarrow> string \<Rightarrow> ('x world, unit) go" where
  "DeleteUser E c identity_id =
    call (requireClusterAdmin E c) id (\<lambda>_.
    call (lift (parseUUID E identity_id)) (Statusf CodeInvalidArgument ''identity_id'') (\<lambda>i.
    let identityObject = identityObjectPrefix @ e_uuid_string E i in
    call (syncClusterRole E c i CLUSTER_ROLE_UNSPECIFIED) (Statusf CodeInternal ''sync cluster role'') (\<lambda>_.
    call (ext_call (e_list_objects E c
        \<lparr>lo_type = ''organization'', lo_relation = ''member'', lo_user = identityObject\<rparr>))
      (Statusf CodeInternal ''list organization memberships'') (\<lambda>objects.
    call (if length objects > 0
          then ext_call (e_write E c
            \<lparr>wr_writes = [],
             wr_deletes = map (\<lambda>object. \<lparr>tk_user = identityObject, tk_relation = ''member'', tk_object = object\<rparr>) objects\<rparr>)
          else ret ())
      (Statusf CodeInternal ''remove organization memberships'') (\<lambda>_.
    call (store_DeleteUser E i) toStatusError (\<lambda>_.
    ret ()))))))"

end
