(* ===== verification/Token_Handlers.thy ===== *)
theory Token_Handlers
  imports Server
begin

text \<open>
  The handlers of \<open>internal/server/server.go\<close> for API tokens.
\<close>

record create_api_token_request =
  cat_Name :: string
  cat_ExpiresAt :: "timestamp option"

record create_api_token_response =
  car_Token :: proto_api_token
  car_PlaintextToken :: string

record resolve_api_token_response =
  rar_IdentityId :: string
  rar_Token :: proto_api_token

text \<open>The expiry asked for: a valid timestamp that lies in the future.\<close>

definition requested_expiry :: "'x env \<Rightarrow> timestamp option \<Rightarrow> ('x world, time option) go" where
  "requested_expiry E expires =
    (case expires of
       None \<Rightarrow> ret None
     | Some ts \<Rightarrow>
        call (lift (e_ts_check E ts)) (Statusf CodeInvalidArgument ''expires_at'') (\<lambda>_.
        call (ext_value (e_now E)) id (\<lambda>now.
        if \<not> e_ts_time E ts > now
        then fail (Status CodeInvalidArgument ''expires_at must be in the future'')
        else ret (Some (e_ts_time E ts)))))"

definition CreateAPIToken ::
  "'x env \<Rightarrow> ctx \<Rightarrow> create_api_token_request \<Rightarrow> ('x world, create_api_token_response) go" where
  "CreateAPIToken E c req =
    caller E c (\<lambda>identityID.
    if cat_Name req = [] then fail (Status CodeInvalidArgument ''name must be provided'')
    else
      call (requested_expiry E (cat_ExpiresAt req)) id (\<lambda>expiresAt.
      call (attempt (ext_call (e_rand_read E 32)) (\<lambda>random. lift (generate random)))
        (Statusf CodeInternal ''generate token'') (\<lambda>generated.
      call (store_CreateAPIToken E
          \<lparr>cti_IdentityID = identityID, cti_Name = cat_Name req, cti_TokenHash = Hash generated,
           cti_TokenPrefix = TokenPrefix generated, cti_ExpiresAt = expiresAt\<rparr>) toStatusError (\<lambda>token.
      ret \<lparr>car_Token = toProtoAPIToken E token, car_PlaintextToken = Plaintext generated\<rparr>))))"

definition ListAPITokens :: "'x env \<Rightarrow> ctx \<Rightarrow> ('x world, proto_api_token list) go" where
  "ListAPITokens E c =
    caller E c (\<lambda>identityID.
    call (store_ListAPITokens E identityID) toStatusError (\<lambda>tokens.
    ret (map (toProtoAPIToken E) tokens)))"

definition RevokeAPIToken :: "'x env \<Rightarrow> ctx \<Rightarrow> string \<Rightarrow> ('x world, unit) go" where
  "RevokeAPIToken E c token_id =
    caller E c (\<lambda>identityID.
    call (lift (parseUUID E token_id)) (Statusf CodeInvalidArgument ''token_id'') (\<lambda>tokenID.
    call (store_RevokeAPIToken E identityID tokenID) toStatusError ret))"

definition ResolveAPIToken :: "'x env \<Rightarrow> ctx \<Rightarrow> string \<Rightarrow> ('x world, resolve_api_token_response) go" where
  "ResolveAPIToken E c tokenHash =
    (if tokenHash = [] then fail (Status CodeInvalidArgument ''token_hash must be provided'')
     else
       call (store_ResolveAPIToken E tokenHash) toStatusError (\<lambda>token.
       call (case tok_ExpiresAt token of
               None \<Rightarrow> ret ()
             | Some e \<Rightarrow>
                call (ext_value (e_now E)) id (\<lambda>now.
                if \<not> e > now then fail (Status CodeUnauthenticated ''api token expired'') else ret ())) id (\<lambda>_.
       ret \<lparr>rar_IdentityId = e_uuid_string E (tok_IdentityID token), rar_Token = toProtoAPIToken E token\<rparr>)))"

end
