(* ===== verification/Group_Sync.thy ===== *)
theory Group_Sync
  imports Server
begin

text \<open>
  \<open>internal/server/group_sync.go\<close>: the group role attributes of a user, the synchronisation of
  the user's devices with them, the membership events and the reconciliation of all users. The loops
  over pages are \<open>page_loop\<close>; the one over the Groups service's pages ends only if that
  service's page tokens run out, the ones over the store always do.
\<close>

definition identityMetadataKey :: string where "identityMetadataKey = ''x-identity-id''"
definition groupMembershipAddedSubject :: string where
  "groupMembershipAddedSubject = ''agyn.groups.membership.added''"
definition groupMembershipRemovedSubject :: string where
  "groupMembershipRemovedSubject = ''agyn.groups.membership.removed''"
definition groupRoleAttributePrefix :: string where "groupRoleAttributePrefix = ''group-''"
definition organizationObjectPrefix :: string where "organizationObjectPrefix = ''organization:''"
definition organizationType :: string where "organizationType = ''organization''"
definition organizationMemberRelation :: string where "organizationMemberRelation = ''member''"

definition groupRoleAttribute :: "string \<Rightarrow> string" where
  "groupRoleAttribute groupID = groupRoleAttributePrefix @ groupID"

section \<open>The groups of a user\<close>

definition parse_organization :: "'x env \<Rightarrow> string \<Rightarrow> go_err + uuid" where
  "parse_organization E object =
    (case cut_prefix object organizationObjectPrefix of
       None \<Rightarrow> Inl (Errorf (''authorization returned invalid organization object '' @ object))
     | Some v \<Rightarrow>
        (case e_uuid_parse E v of
           Inl err \<Rightarrow> Inl (Wrap (''parse organization object '' @ object) err)
         | Inr i \<Rightarrow> Inr i))"

definition listUserOrganizationIDs :: "'x env \<Rightarrow> ctx \<Rightarrow> uuid \<Rightarrow> ('x world, uuid list) go" where
  "listUserOrganizationIDs E c userID =
    call (ext_call (e_list_objects E c
        \<lparr>lo_type = organizationType, lo_relation = organizationMemberRelation,
         lo_user = identityObjectPrefix @ e_uuid_string E userID\<rparr>))
      (Wrap ''list organization memberships'') (\<lambda>objects.
    lift (map_result (parse_organization E) objects))"

type_synonym 'x groups_client =
  "ctx \<Rightarrow> list_member_groups_request \<Rightarrow> 'x \<Rightarrow> (go_err + list_member_groups_response) \<times> 'x"

text \<open>One page of \<open>ListMemberGroups\<close>; the empty page token is no cursor.\<close>

definition member_groups_page ::
  "'x env \<Rightarrow> 'x groups_client \<Rightarrow> ctx \<Rightarrow> uuid \<Rightarrow> uuid \<Rightarrow> string option
    \<Rightarrow> ('x world, string list \<times> string option) go" where
  "member_groups_page E list_member_groups c userID organizationID pageToken =
    call (ext_call (list_member_groups c
        \<lparr>lg_member_type = MEMBER_TYPE_USER, lg_member_id = e_uuid_string E userID,
         lg_organization_id = e_uuid_string E organizationID, lg_page_size = MaxListPageSize,
         lg_page_token = (case pageToken of None \<Rightarrow> [] | Some t \<Rightarrow> t)\<rparr>)) id (\<lambda>response.
    ret (lg_group_ids response,
         if lg_next_page_token response = [] then None else Some (lg_next_page_token response)))"

text \<open>\<open>for _, organizationID := range organizationIDs\<close>, with the inner loop over the pages.\<close>

fun organization_groups ::
  "'x env \<Rightarrow> 'x groups_client \<Rightarrow> ctx \<Rightarrow> uuid \<Rightarrow> uuid list \<Rightarrow> string list \<Rightarrow> ('x world, string list) go" where
  "organization_groups E gc c userID [] groups w = ret groups w"
| "organization_groups E gc c userID (organizationID # rest) groups w =
    call (page_loop (member_groups_page E gc c userID organizationID) (Wrap ''list member groups'')
            (\<lambda>groups page. ret (groups @ page)) groups None) id
      (organization_groups E gc c userID rest) w"

definition listUserGroups :: "'x env \<Rightarrow> 'x groups_client \<Rightarrow> ctx \<Rightarrow> uuid \<Rightarrow> ('x world, string list) go" where
  "listUserGroups E gc c userID =
    call (listUserOrganizationIDs E c userID) id (\<lambda>organizationIDs.
    organization_groups E gc (append_outgoing c identityMetadataKey (e_uuid_string E userID)) userID
      organizationIDs [])"

text \<open>The loop over the groups' ids; \<open>seen\<close> is the set of attributes so far.\<close>

fun role_attributes :: "string list \<Rightarrow> string set \<Rightarrow> string list \<Rightarrow> go_err + string list" where
  "role_attributes [] seen roleAttributes = Inr roleAttributes"
| "role_attributes (groupID # groups) seen roleAttributes =
    (if groupID = [] then Inl (Errorf ''groups list returned group without id'')
     else
       let roleAttribute = groupRoleAttribute groupID
       in if roleAttribute \<in> seen then role_attributes groups seen roleAttributes
          else role_attributes groups (insert roleAttribute seen) (roleAttributes @ [roleAttribute]))"

definition userGroupRoleAttributes :: "'x env \<Rightarrow> ctx \<Rightarrow> uuid \<Rightarrow> ('x world, string list) go" where
  "userGroupRoleAttributes E c userID =
    (case e_groups_client E of
       None \<Rightarrow> ret []
     | Some gc \<Rightarrow>
        call (listUserGroups E gc c userID) id (\<lambda>groups.
        call (lift (role_attributes groups {} [])) id (\<lambda>roleAttributes.
        ret (sort_strings roleAttributes))))"

section \<open>Synchronising devices\<close>

fun stale_attributes :: "string list \<Rightarrow> string list \<Rightarrow> string set \<Rightarrow> string list \<Rightarrow> string list" where
  "stale_attributes desired [] seen remove = remove"
| "stale_attributes desired (attr # attrs) seen remove =
    (if attr = [] then stale_attributes desired attrs seen remove
     else if attr \<in> set desired then stale_attributes desired attrs seen remove
     else if attr \<in> seen then stale_attributes desired attrs seen remove
     else stale_attributes desired attrs (insert attr seen) (remove @ [attr]))"

definition staleCandidateAttributes :: "string list \<Rightarrow> string list \<Rightarrow> string list" where
  "staleCandidateAttributes desiredAttributes candidateAttributes =
    sort_strings (stale_attributes desiredAttributes candidateAttributes {} [])"

definition listAllUserDevices :: "'x env \<Rightarrow> uuid \<Rightarrow> ('x world, device list) go" where
  "listAllUserDevices E userID =
    page_loop (store_ListDevices E userID MaxListPageSize) (Wrap ''list devices'')
      (\<lambda>devices page. ret (devices @ page)) [] None"

definition patch_device :: "'x env \<Rightarrow> ctx \<Rightarrow> string list \<Rightarrow> string list \<Rightarrow> device \<Rightarrow> ('x world, unit) go" where
  "patch_device E c desiredAttributes removeAttributes d =
    call (ext_call (e_patch_role_attributes E c
        \<lparr>pr_ziti_identity_id = dev_OpenZitiIdentityID d, pr_add = desiredAttributes,
         pr_remove = removeAttributes\<rparr>))
      (Wrap ''patch device role attributes'') ret"

definition syncUserDeviceGroupRoles :: "'x env \<Rightarrow> ctx \<Rightarrow> uuid \<Rightarrow> string list \<Rightarrow> ('x world, unit) go" where
  "syncUserDeviceGroupRoles E c userID candidateRemoveAttributes =
    call (userGroupRoleAttributes E c userID) id (\<lambda>desiredAttributes.
    let removeAttributes = staleCandidateAttributes desiredAttributes candidateRemoveAttributes in
    call (listAllUserDevices E userID) id (\<lambda>devices.
    each (patch_device E c desiredAttributes removeAttributes) devices))"

section \<open>Events and reconciliation\<close>

definition handleUserMembershipChange ::
  "'x env \<Rightarrow> ctx \<Rightarrow> member_type \<Rightarrow> string \<Rightarrow> string \<Rightarrow> ('x world, unit) go" where
  "handleUserMembershipChange E c memberType memberID groupID =
    (if memberType \<noteq> MEMBER_TYPE_USER then ret ()
     else
       call (lift (e_uuid_parse E memberID)) (Wrap ''parse group membership member id'') (\<lambda>userID.
       let candidateRemoveAttributes = (if groupID \<noteq> [] then [groupRoleAttribute groupID] else [])
       in syncUserDeviceGroupRoles E c userID candidateRemoveAttributes))"

definition HandleGroupMembershipEvent ::
  "'x env \<Rightarrow> ctx \<Rightarrow> string \<Rightarrow> string \<Rightarrow> ('x world, unit) go" where
  "HandleGroupMembershipEvent E c subject data =
    (if subject = groupMembershipAddedSubject then
       call (lift (e_unmarshal_added E data)) (Wrap ''unmarshal group membership added event'') (\<lambda>event.
       handleUserMembershipChange E c (me_member_type event) (me_member_id event) (me_group_id event))
     else if subject = groupMembershipRemovedSubject then
       call (lift (e_unmarshal_removed E data)) (Wrap ''unmarshal group membership removed event'') (\<lambda>event.
       handleUserMembershipChange E c (me_member_type event) (me_member_id event) (me_group_id event))
     else ret ())"

definition ReconcileAllUserDeviceGroupRoles :: "'x env \<Rightarrow> ctx \<Rightarrow> ('x world, unit) go" where
  "ReconcileAllUserDeviceGroupRoles E c =
    page_loop (store_ListUsers E MaxListPageSize) (Wrap ''list users'')
      (\<lambda>_. each (\<lambda>u. syncUserDeviceGroupRoles E c (meta_ID (usr_Meta u)) [])) () None"

section \<open>The loops end\<close>

text \<open>
  What the code relies on of the Groups service: a continued request has less left to list than the one
  it continues.
\<close>

definition groups_pages_end :: "'x env \<Rightarrow> bool" where
  "groups_pages_end E \<longleftrightarrow>
    (case e_groups_client E of
       None \<Rightarrow> True
     | Some gc \<Rightarrow> \<exists>left :: list_member_groups_request \<Rightarrow> nat. \<forall>c req x response x'.
         gc c req x = (Inr response, x') \<longrightarrow> lg_next_page_token response \<noteq> []
         \<longrightarrow> left (req\<lparr>lg_page_token := lg_next_page_token response\<rparr>) < left req)"

text \<open>Then the pages of one organization are a page source, by the interface's own laws.\<close>

lemma member_groups_source:
  assumes "groups_pages_end E" and "e_groups_client E = Some gc"
  obtains left where "page_source (member_groups_page E gc c userID organizationID) left"
proof -
  have "\<exists>left :: list_member_groups_request \<Rightarrow> nat. \<forall>c req x response x'.
      gc c req x = (Inr response, x') \<longrightarrow> lg_next_page_token response \<noteq> []
      \<longrightarrow> left (req\<lparr>lg_page_token := lg_next_page_token response\<rparr>) < left req"
    using assms by (simp only: groups_pages_end_def option.case)
  then obtain left :: "list_member_groups_request \<Rightarrow> nat" where left: "\<forall>c req x response x'.
      gc c req x = (Inr response, x') \<longrightarrow> lg_next_page_token response \<noteq> []
      \<longrightarrow> left (req\<lparr>lg_page_token := lg_next_page_token response\<rparr>) < left req"
    by (rule exE)
  let ?req = "\<lambda>t. \<lparr>lg_member_type = MEMBER_TYPE_USER, lg_member_id = e_uuid_string E userID,
    lg_organization_id = e_uuid_string E organizationID, lg_page_size = MaxListPageSize,
    lg_page_token = (case t of None \<Rightarrow> [] | Some t \<Rightarrow> t)\<rparr>"
  have "page_source (member_groups_page E gc c userID organizationID) (\<lambda>t. left (?req t))"
  proof
    show "returns (member_groups_page E gc c userID organizationID t)" for t
      unfolding member_groups_page_def by (intro returns_intro)
  next
    fix t w xs t' w'
    assume "member_groups_page E gc c userID organizationID t w = Some (Inr (xs, Some t'), w')"
    then obtain response x' where "gc c (?req t) (ext w) = (Inr response, x')"
        and "lg_next_page_token response \<noteq> []" "t' = lg_next_page_token response"
      by (auto simp: member_groups_page_def call_Inr_iff ext_call_def split: prod.splits if_splits)
    from left [rule_format, OF this(1,2)] this(3) show "left (?req (Some t')) < left (?req t)" by simp
  qed
  then show thesis by (rule that)
qed

lemma returns_organization_groups:
  assumes "groups_pages_end E" and "e_groups_client E = Some gc"
  shows "returns (organization_groups E gc c userID ids groups)"
proof (induction ids arbitrary: groups)
  case Nil
  then show ?case by (simp add: returns_def)
next
  case (Cons i ids)
  obtain left where "page_source (member_groups_page E gc c userID i) left"
    using assms by (rule member_groups_source)
  then have "returns (page_loop (member_groups_page E gc c userID i) (Wrap ''list member groups'')
      (\<lambda>groups page. ret (groups @ page)) groups None)"
    by (rule page_source.loop_returns) (rule returns_ret)
  then have "returns (call (page_loop (member_groups_page E gc c userID i) (Wrap ''list member groups'')
      (\<lambda>groups page. ret (groups @ page)) groups None) id (organization_groups E gc c userID ids))"
    using Cons.IH by (rule returns_call)
  then show ?case by (simp add: returns_def)
qed

lemma returns_userGroupRoleAttributes [returns_intro]:
  assumes "groups_pages_end E"
  shows "returns (userGroupRoleAttributes E c userID)"
proof (cases "e_groups_client E")
  case None
  then show ?thesis by (simp add: userGroupRoleAttributes_def returns_ret)
next
  case (Some gc)
  have "returns (listUserGroups E gc c userID)"
    unfolding listUserGroups_def listUserOrganizationIDs_def
    by (intro returns_intro returns_organization_groups assms Some)
  then show ?thesis
    by (simp add: userGroupRoleAttributes_def Some) (intro returns_intro)
qed

lemma store_pages:
  "store_ListDevices E i n = listEntities E devices_table (''SELECT '' @ deviceColumns @ '' FROM user_devices'') ''id''
    [''identity_id = $1''] [SqlUuid i] n scanDevice dev_ID"
  "store_ListUsers E n = listEntities E users_table (''SELECT '' @ userColumns @ '' FROM users'') ''identity_id''
    [] [] n scanUser (\<lambda>u. meta_ID (usr_Meta u))"
  by (simp_all add: fun_eq_iff store_ListDevices_def store_ListUsers_def)

lemma returns_listAllUserDevices [returns_intro]: "returns (listAllUserDevices E i)"
  unfolding listAllUserDevices_def store_pages by (rule device_pages.loop_returns) (rule returns_ret)

lemma returns_patch_device [returns_intro]: "returns (patch_device E c add remove d)"
  unfolding patch_device_def by (intro returns_intro)

lemma returns_sync [returns_intro]:
  "groups_pages_end E \<Longrightarrow> returns (syncUserDeviceGroupRoles E c i candidates)"
  unfolding syncUserDeviceGroupRoles_def Let_def by (intro returns_intro)

lemma returns_event [returns_intro]:
  "groups_pages_end E \<Longrightarrow> returns (HandleGroupMembershipEvent E c subject data)"
  unfolding HandleGroupMembershipEvent_def handleUserMembershipChange_def Let_def by (intro returns_intro)

lemma returns_reconcile:
  "groups_pages_end E \<Longrightarrow> returns (ReconcileAllUserDeviceGroupRoles E c)"
  unfolding ReconcileAllUserDeviceGroupRoles_def store_pages
  by (rule user_pages.loop_returns) (intro returns_intro)

section \<open>What the loops may change\<close>

text \<open>
  Every invariant that other sessions keep is kept, and when nobody else writes the tables stay as they are: no statement of this
  theory writes.
\<close>

lemma within_organization_groups:
  assumes R: "state_preorder R" and call: "\<And>f. within R (ext_call f :: ('x world, list_member_groups_response) go)"
  shows "within R (organization_groups E (gc :: 'x groups_client) c userID ids groups)"
proof (induction ids arbitrary: groups)
  case Nil
  then show ?case using state_preorder.preorder_refl [OF R] by (simp add: within_def)
next
  case (Cons i ids)
  have "within R (page_loop (member_groups_page E gc c userID i) (Wrap ''list member groups'')
      (\<lambda>groups page. ret (groups @ page)) groups None)"
    using R unfolding member_groups_page_def
    by (intro within_page_loop state_preorder.within_call [OF R] state_preorder.within_ret [OF R] call)
  then have "within R (call (page_loop (member_groups_page E gc c userID i) (Wrap ''list member groups'')
      (\<lambda>groups page. ret (groups @ page)) groups None) id (organization_groups E gc c userID ids))"
    using Cons.IH by (rule state_preorder.within_call [OF R])
  then show ?case by (simp add: within_def)
qed

lemma kept_userGroupRoleAttributes [kept_ops]: "within (keeps I) (userGroupRoleAttributes E c i)"
  unfolding userGroupRoleAttributes_def listUserGroups_def listUserOrganizationIDs_def
  by (intro kept.within_rules kept_ext_call within_organization_groups kept.state_preorder_axioms)

lemma same_userGroupRoleAttributes: "within tables_same (userGroupRoleAttributes E c i)"
  unfolding userGroupRoleAttributes_def listUserGroups_def listUserOrganizationIDs_def
  by (intro same.within_rules same_ext_call within_organization_groups same.state_preorder_axioms)

lemma kept_listAllUserDevices [kept_ops]: "lawful E I \<Longrightarrow> within (keeps I) (listAllUserDevices E i)"
  unfolding listAllUserDevices_def
  by (intro within_page_loop kept.state_preorder_axioms kept_ops kept.within_rules)

lemma same_listAllUserDevices: "quiet E \<Longrightarrow> within tables_same (listAllUserDevices E i)"
  unfolding listAllUserDevices_def store_pages
  by (intro within_page_loop same.state_preorder_axioms device_pages.same_fetch same.within_rules)

lemma kept_sync [kept_ops]: "lawful E I \<Longrightarrow> within (keeps I) (syncUserDeviceGroupRoles E c i candidates)"
  unfolding syncUserDeviceGroupRoles_def patch_device_def Let_def
  by (intro kept.within_rules kept_ops kept_ext_call)

lemma same_sync: "quiet E \<Longrightarrow> within tables_same (syncUserDeviceGroupRoles E c i candidates)"
  unfolding syncUserDeviceGroupRoles_def patch_device_def Let_def
  by (intro same.within_rules same_userGroupRoleAttributes same_listAllUserDevices same_ext_call)

lemma kept_event [kept_ops]: "lawful E I \<Longrightarrow> within (keeps I) (HandleGroupMembershipEvent E c subject data)"
  unfolding HandleGroupMembershipEvent_def handleUserMembershipChange_def Let_def
  by (intro kept.within_rules kept_ops)

lemma kept_reconcile [kept_ops]: "lawful E I \<Longrightarrow> within (keeps I) (ReconcileAllUserDeviceGroupRoles E c)"
  unfolding ReconcileAllUserDeviceGroupRoles_def
  by (intro within_page_loop kept.state_preorder_axioms kept_ops kept.within_rules)

end
