(* ===== verification/Device_Handlers.thy ===== *)
theory Device_Handlers
  imports Group_Sync User_Handlers
begin

text \<open>
  The handlers of \<open>internal/server/server.go\<close> for devices.
\<close>

record create_device_response =
  cdr_Device :: proto_device
  cdr_EnrollmentJwt :: string

definition CreateDevice :: "'x env \<Rightarrow> ctx \<Rightarrow> string \<Rightarrow> ('x world, create_device_response) go" where
  "CreateDevice E c name =
    caller E c (\<lambda>identityID.
    if name = [] then fail (Status CodeInvalidArgument ''name must be provided'')
    else
      call (userGroupRoleAttributes E c identityID) (Statusf CodeInternal ''list user group memberships'')
        (\<lambda>groupRoleAttributes.
      call (ext_call (e_create_device_identity E c
          \<lparr>cd_user_identity_id = e_uuid_string E identityID, cd_name = name,
           cd_additional_role_attributes = groupRoleAttributes\<rparr>))
        (Statusf CodeInternal ''create device identity'') (\<lambda>zitiResponse.
      if cd_ziti_identity_id zitiResponse = []
      then fail (Status CodeInternal ''create device identity: missing ziti identity id'')
      else if cd_enrollment_jwt zitiResponse = []
      then fail (Status CodeInternal ''create device identity: missing enrollment jwt'')
      else
        attempt (store_CreateDevice E
            \<lparr>cdi_IdentityID = identityID, cdi_Name = name,
             cdi_OpenZitiIdentityID = cd_ziti_identity_id zitiResponse,
             cdi_EnrollmentJWT = cd_enrollment_jwt zitiResponse\<rparr>) (\<lambda>stored.
        case stored of
          Inl err \<Rightarrow>
            attempt (ext_call (e_delete_device_identity E c (cd_ziti_identity_id zitiResponse))) (\<lambda>_.
            fail (toStatusError err))
        | Inr d \<Rightarrow>
            call (need (toProtoDevice E d)) id (\<lambda>p.
            ret \<lparr>cdr_Device = p, cdr_EnrollmentJwt = cd_enrollment_jwt zitiResponse\<rparr>)))))"

definition ListDevices :: "'x env \<Rightarrow> ctx \<Rightarrow> list_request \<Rightarrow> ('x world, proto_device list \<times> string) go" where
  "ListDevices E c req =
    caller E c (\<lambda>identityID.
    call (lift (decodePageCursor E (lr_PageToken req))) (Statusf CodeInvalidArgument ''invalid page_token'') (\<lambda>cursor.
    call (store_ListDevices E identityID (lr_PageSize req) cursor) toStatusError (\<lambda>result.
    need (mapListResult E (fst result) (snd result) (toProtoDevice E)))))"

definition DeleteDevice :: "'x env \<Rightarrow> ctx \<Rightarrow> string \<Rightarrow> ('x world, unit) go" where
  "DeleteDevice E c device_id =
    caller E c (\<lambda>identityID.
    call (lift (parseUUID E device_id)) (Statusf CodeInvalidArgument ''id'') (\<lambda>deviceID.
    call (store_DeleteDevice E identityID deviceID) toStatusError (\<lambda>d.
    attempt (ext_call (e_delete_device_identity E c (dev_OpenZitiIdentityID d))) (\<lambda>_.
    ret ()))))"

end
