(* ===== verification/Device_Liveness.thy ===== *)
theory Device_Liveness
  imports Group_Sync
begin

text \<open>
  \<open>internal/server/device_liveness.go\<close>: polling OpenZiti for what became of the devices. The
  ticker goroutine around \<open>PollDeviceLiveness\<close> is in \<open>Background\<close>.
\<close>

definition deviceConnectivityFromZiti :: "bool \<Rightarrow> device_connectivity" where
  "deviceConnectivityFromZiti hasEdgeRouterConnection =
    (if hasEdgeRouterConnection then DeviceConnectivityOnline else DeviceConnectivityOffline)"

definition deviceStatusFromZiti :: "enrollment_state \<Rightarrow> go_err + device_status" where
  "deviceStatusFromZiti state =
    (case state of
       ENROLLMENT_STATE_PENDING \<Rightarrow> Inr DeviceStatusPending
     | ENROLLMENT_STATE_ENROLLED \<Rightarrow> Inr DeviceStatusEnrolled
     | ENROLLMENT_STATE_OTHER n \<Rightarrow>
         Inl (Errorf (''unknown OpenZiti enrollment state '' @ (if n < 0 then ''-'' else []) @ decimal (nat \<bar>n\<bar>))))"

text \<open>What is written for a device, given its new status and connectivity and the time.\<close>

definition liveness_input ::
  "device \<Rightarrow> device_status \<Rightarrow> device_connectivity \<Rightarrow> time \<Rightarrow> update_device_liveness_input" where
  "liveness_input d status connectivity now =
    \<lparr>dli_ID = dev_ID d, dli_Status = status, dli_Connectivity = connectivity,
     dli_EnrolledAt =
       (if dev_EnrolledAt d = None \<and> status = DeviceStatusEnrolled then Some now else dev_EnrolledAt d),
     dli_LastSeenAt = (if connectivity = DeviceConnectivityOnline then Some now else dev_LastSeenAt d)\<rparr>"

definition pollDeviceLiveness :: "'x env \<Rightarrow> ctx \<Rightarrow> device \<Rightarrow> ('x world, unit) go" where
  "pollDeviceLiveness E c d =
    (if dev_OpenZitiIdentityID d = [] then ret ()
     else
       call (ext_call (e_identity_liveness E c (dev_OpenZitiIdentityID d))) id (\<lambda>response.
       call (lift (deviceStatusFromZiti (lv_enrollment_state response))) id (\<lambda>status.
       let connectivity = deviceConnectivityFromZiti (lv_has_edge_router_connection response) in
       if status = dev_Status d \<and> connectivity = dev_Connectivity d \<and> connectivity = DeviceConnectivityOffline
       then ret ()
       else
         call (ext_value (e_now E)) id (\<lambda>now.
         call (store_UpdateDeviceLiveness E (liveness_input d status connectivity now)) id (\<lambda>_.
         ret ())))))"

text \<open>The devices of one user; a failure is logged and the next one is polled.\<close>

definition poll_user :: "'x env \<Rightarrow> ctx \<Rightarrow> user \<Rightarrow> ('x world, unit) go" where
  "poll_user E c u =
    attempt (listAllUserDevices E (meta_ID (usr_Meta u))) (\<lambda>listed.
    case listed of
      Inl err \<Rightarrow> ret ()
    | Inr devices \<Rightarrow> each_logged (pollDeviceLiveness E c) devices)"

definition PollDeviceLiveness :: "'x env \<Rightarrow> ctx \<Rightarrow> ('x world, unit) go" where
  "PollDeviceLiveness E c =
    page_loop (store_ListUsers E MaxListPageSize) (Wrap ''list users'')
      (\<lambda>_. each (poll_user E c)) () None"

end
