(* ===== verification/Group_Consumer.thy ===== *)
theory Group_Consumer
  imports Group_Sync
begin

text \<open>
  \<open>internal/server/group_consumer.go\<close>: the goroutine that subscribes to the membership events and
  retries with a growing delay, what is answered for each message, and the ticker goroutines of this
  file and of \<open>device_liveness.go\<close>. NATS itself is outside: whether a subscription succeeds and when
  the context is cancelled are the environment's choices, hence step relations.
\<close>

section \<open>The retry delay\<close>

text \<open>\<open>time.Duration\<close> is an \<open>int64\<close> of nanoseconds.\<close>

type_synonym duration = "64 word"

definition groupMembershipSubject :: string where
  "groupMembershipSubject = ''agyn.groups.membership.>''"
definition groupMembershipRetryInitial :: duration where "groupMembershipRetryInitial = 1000000000"
definition groupMembershipRetryMax :: duration where "groupMembershipRetryMax = 30 * 1000000000"

definition nextGroupMembershipRetryDelay :: "duration \<Rightarrow> duration" where
  "nextGroupMembershipRetryDelay delay =
    (let next = delay * 2
     in if sint next > sint groupMembershipRetryMax then groupMembershipRetryMax else next)"

section \<open>The subscription loop\<close>

text \<open>
  Where the goroutine of \<open>StartGroupMembershipConsumerLoopWithSubscriber\<close> is: at the top of the loop,
  in the call of \<open>subscribe\<close>, waiting for the end of the context with a live subscription,
  waiting to retry, or gone.
\<close>

datatype consumer_at = Top | Subscribing | Consuming | Backoff | Gone

record consumer =
  at :: consumer_at
  cancelled :: bool
  retryDelay :: duration
  live :: nat
  attempts :: nat

definition consumer_start :: consumer where
  "consumer_start = \<lparr>at = Top, cancelled = False, retryDelay = groupMembershipRetryInitial, live = 0, attempts = 0\<rparr>"

text \<open>
  \<open>live\<close> counts the subscriptions that were made and not unsubscribed, \<open>attempts\<close> the failed ones. An
  unsubscribe that reports an error has given the subscription up all the same.
\<close>

inductive consumer_step :: "consumer \<Rightarrow> consumer \<Rightarrow> bool" where
  cancel: "consumer_step s (s\<lparr>cancelled := True\<rparr>)"
| top_done: "at s = Top \<Longrightarrow> cancelled s \<Longrightarrow> consumer_step s (s\<lparr>at := Gone\<rparr>)"
| top_try: "at s = Top \<Longrightarrow> \<not> cancelled s \<Longrightarrow> consumer_step s (s\<lparr>at := Subscribing\<rparr>)"
| subscribed: "at s = Subscribing \<Longrightarrow> consumer_step s (s\<lparr>at := Consuming, live := live s + 1\<rparr>)"
| unavailable: "at s = Subscribing \<Longrightarrow> consumer_step s (s\<lparr>at := Backoff, attempts := attempts s + 1\<rparr>)"
| consuming_done: "at s = Consuming \<Longrightarrow> cancelled s \<Longrightarrow> consumer_step s (s\<lparr>at := Gone, live := live s - 1\<rparr>)"
| backoff_done: "at s = Backoff \<Longrightarrow> cancelled s \<Longrightarrow> consumer_step s (s\<lparr>at := Gone\<rparr>)"
| retry: "at s = Backoff \<Longrightarrow>
    consumer_step s (s\<lparr>at := Top, retryDelay := nextGroupMembershipRetryDelay (retryDelay s)\<rparr>)"

code_pred (modes: i \<Rightarrow> i \<Rightarrow> bool) consumer_step .

inductive_cases consumer_stepE: "consumer_step s s'"

section \<open>Messages\<close>

text \<open>
  The subscription's callback, with \<open>context.Background()\<close>: it sends an answer to the message, and tells which.
  That the answer cannot be sent is only logged.
\<close>

datatype answer = Ack | Nak

definition handle_message :: "'x env \<Rightarrow> string \<Rightarrow> string \<Rightarrow> ('x world, answer) go" where
  "handle_message E subject data =
    attempt (HandleGroupMembershipEvent E background subject data) (\<lambda>handled.
    case handled of
      Inl err \<Rightarrow> attempt (ext_call (e_msg_nak E subject data)) (\<lambda>_. ret Nak)
    | Inr _ \<Rightarrow> attempt (ext_call (e_msg_ack E subject data)) (\<lambda>_. ret Ack))"

section \<open>Tickers\<close>

text \<open>
  \<open>StartGroupRoleReconciliation\<close> and \<open>StartDeviceLivenessPolling\<close>: no goroutine for an interval that is
  not positive; else a loop that runs the job at ticks until the context ends. A job's error is logged.
\<close>

definition starts_ticker :: "duration \<Rightarrow> bool" where
  "starts_ticker interval \<longleftrightarrow> \<not> sint interval \<le> 0"

datatype ticker_event = Tick | Done

fun ticker_loop :: "('w, unit) go \<Rightarrow> ticker_event list \<Rightarrow> ('w, unit) go" where
  "ticker_loop job [] w = ret () w"
| "ticker_loop job (Done # events) w = ret () w"
| "ticker_loop job (Tick # events) w = attempt job (\<lambda>_. ticker_loop job events) w"

definition run_ticker :: "duration \<Rightarrow> ('w, unit) go \<Rightarrow> ticker_event list \<Rightarrow> ('w, unit) go" where
  "run_ticker interval job events = (if \<not> starts_ticker interval then ret () else ticker_loop job events)"

definition StartGroupRoleReconciliation :: "'x env \<Rightarrow> duration \<Rightarrow> ticker_event list \<Rightarrow> ('x world, unit) go" where
  "StartGroupRoleReconciliation E interval events =
    run_ticker interval (ReconcileAllUserDeviceGroupRoles E background) events"

section \<open>The loop's invariant\<close>

text \<open>The delays in the order they are used, by the number of failed attempts.\<close>

definition delay_after :: "nat \<Rightarrow> int" where
  "delay_after n = (if n < 5 then 2 ^ n * 1000000000 else 30 * 1000000000)"

definition retries_done :: "consumer \<Rightarrow> nat" where
  "retries_done s = (if at s = Backoff then attempts s - 1 else attempts s)"

definition consumer_inv :: "consumer \<Rightarrow> bool" where
  "consumer_inv s \<longleftrightarrow>
    live s = (if at s = Consuming then 1 else 0)
    \<and> (at s = Gone \<longrightarrow> cancelled s)
    \<and> (at s = Backoff \<longrightarrow> 0 < attempts s)
    \<and> (at s \<noteq> Gone \<longrightarrow> sint (retryDelay s) = delay_after (retries_done s))"

lemma next_delay:
  assumes "sint d = delay_after n"
  shows "sint (nextGroupMembershipRetryDelay d) = delay_after (Suc n)"
proof -
  have "n < 5 \<Longrightarrow> n \<in> {0, 1, 2, 3, 4}" by auto
  then consider k where "n = k" "k \<in> {0, 1, 2, 3, 4}" | "5 \<le> n" by force
  then have range: "0 < sint d \<and> sint d \<le> 30000000000"
    using assms by cases (auto simp: delay_after_def)
  have twice: "sint (d * 2) = 2 * sint d"
    using range by (simp add: sint_word_ariths signed_take_bit_int_eq_self)
  have max: "sint groupMembershipRetryMax = 30000000000"
    by (simp add: groupMembershipRetryMax_def)
  consider "n \<in> {0, 1, 2, 3}" | "n = 4" | "5 \<le> n" by force
  then show ?thesis
    by cases (use assms twice max in \<open>auto simp: nextGroupMembershipRetryDelay_def delay_after_def Let_def\<close>)
qed

text \<open>
  C32. Whatever the network does and whenever the context ends, the consumer goroutine never holds more than
  one subscription, holds it exactly while it is consuming, is gone only after the context ended, and then
  holds none; and the wait before its \<open>n+1\<close>st retry is 1, 2, 4, 8, 16 and then 30 seconds for ever, the
  doubling never overflowing.
\<close>

theorem consumer_invariant:
  assumes "consumer_step\<^sup>*\<^sup>* consumer_start s"
  shows "consumer_inv s"
  using assms
proof (induction rule: rtranclp_induct)
  case base
  then show ?case
    by (simp add: consumer_inv_def consumer_start_def retries_done_def delay_after_def groupMembershipRetryInitial_def)
next
  case (step s s')
  from step.hyps(2) step.IH show ?case
  proof (cases rule: consumer_step.cases)
    case retry
    then have "sint (nextGroupMembershipRetryDelay (retryDelay s)) = delay_after (Suc (attempts s - 1))"
      using step.IH by (intro next_delay) (simp add: consumer_inv_def retries_done_def)
    then show ?thesis
      using retry step.IH by (simp add: consumer_inv_def retries_done_def)
  qed (auto simp: consumer_inv_def retries_done_def)
qed

theorem consumer_invariant_witness:
  "consumer_inv (consumer_start\<lparr>at := Top, attempts := 1, retryDelay := 2000000000\<rparr>)"
proof (rule consumer_invariant)
  let ?a = "consumer_start\<lparr>at := Subscribing\<rparr>" and ?b = "consumer_start\<lparr>at := Backoff, attempts := 1\<rparr>"
  have "consumer_step consumer_start ?a"
    by (rule consumer_step.top_try) (simp_all add: consumer_start_def)
  moreover have "consumer_step ?a ?b"
    using consumer_step.unavailable [of ?a] by (simp add: consumer_start_def)
  moreover have "consumer_step ?b (consumer_start\<lparr>at := Top, attempts := 1, retryDelay := 2000000000\<rparr>)"
    using consumer_step.retry [of ?b]
    by (simp add: consumer_start_def nextGroupMembershipRetryDelay_def groupMembershipRetryInitial_def
        groupMembershipRetryMax_def Let_def)
  ultimately show "consumer_step\<^sup>*\<^sup>* consumer_start (consumer_start\<lparr>at := Top, attempts := 1, retryDelay := 2000000000\<rparr>)"
    by (meson converse_rtranclp_into_rtranclp rtranclp.rtrancl_refl)
qed

end
