(* ===== verification/Service.thy ===== *)
theory Service
  imports User_Handlers Token_Handlers Device_Handlers Device_Liveness Group_Consumer
begin

text \<open>
  The service as a whole: everything that can run in it (the gRPC methods that
  \<open>cmd/users-service/main.go\<close> registers, the membership messages, the two background jobs) as one
  datatype, and the states its runs reach. Other sessions, the service's own other requests
  among them, may change the tables between any two statements. Facts: the constraints of the tables
  and the validity of what is stored hold in every reachable state, and every run comes to an end.
\<close>

datatype request =
    R_ResolveOrCreateUser resolve_or_create_user_request
  | R_GetUser string
  | R_GetUserByOIDCSubject string
  | R_BatchGetUsers "string list"
  | R_UpdateUser update_user_request
  | R_CreateAPIToken create_api_token_request
  | R_ListAPITokens
  | R_RevokeAPIToken string
  | R_ResolveAPIToken string
  | R_CreateDevice string
  | R_ListDevices list_request
  | R_DeleteDevice string
  | R_GetMe
  | R_UpdateMe update_me_request
  | R_SearchUsers search_users_request
  | R_ListUsers list_request
  | R_CreateUser create_user_request
  | R_DeleteUser string
  | R_Message string string
  | R_Reconcile
  | R_PollLiveness

text \<open>A run without its response; the error is kept.\<close>

definition outcome :: "('w, 'a) go \<Rightarrow> ('w, unit) go" where
  "outcome m = call m id (\<lambda>_. ret ())"

fun serve :: "'x env \<Rightarrow> ctx \<Rightarrow> request \<Rightarrow> ('x world, unit) go" where
  "serve E c (R_ResolveOrCreateUser req) = outcome (ResolveOrCreateUser E c req)"
| "serve E c (R_GetUser i) = outcome (GetUser E c i)"
| "serve E c (R_GetUserByOIDCSubject s) = outcome (GetUserByOIDCSubject E c s)"
| "serve E c (R_BatchGetUsers ids) = outcome (BatchGetUsers E c ids)"
| "serve E c (R_UpdateUser req) = outcome (UpdateUser E c req)"
| "serve E c (R_CreateAPIToken req) = outcome (CreateAPIToken E c req)"
| "serve E c R_ListAPITokens = outcome (ListAPITokens E c)"
| "serve E c (R_RevokeAPIToken k) = outcome (RevokeAPIToken E c k)"
| "serve E c (R_ResolveAPIToken h) = outcome (ResolveAPIToken E c h)"
| "serve E c (R_CreateDevice name) = outcome (CreateDevice E c name)"
| "serve E c (R_ListDevices req) = outcome (ListDevices E c req)"
| "serve E c (R_DeleteDevice k) = outcome (DeleteDevice E c k)"
| "serve E c R_GetMe = outcome (GetMe E c)"
| "serve E c (R_UpdateMe req) = outcome (UpdateMe E c req)"
| "serve E c (R_SearchUsers req) = outcome (SearchUsers E c req)"
| "serve E c (R_ListUsers req) = outcome (ListUsers E c req)"
| "serve E c (R_CreateUser req) = outcome (CreateUser E c req)"
| "serve E c (R_DeleteUser i) = outcome (DeleteUser E c i)"
| "serve E c (R_Message subject data) = outcome (handle_message E subject data)"
| "serve E c R_Reconcile = ReconcileAllUserDeviceGroupRoles E background"
| "serve E c R_PollLiveness = PollDeviceLiveness E background"

inductive reachable :: "'x env \<Rightarrow> 'x world \<Rightarrow> 'x world \<Rightarrow> bool" for E w0 where
  start: "reachable E w0 w0"
| run: "reachable E w0 w \<Longrightarrow> serve E c req w = Some (r, w') \<Longrightarrow> reachable E w0 w'"

text \<open>An invariant of every run is one of every reachable state.\<close>

lemma reachable_keeps:
  assumes "\<And>c req. within (keeps I) (serve E c req)" and "I (db w0)"
  shows "reachable E w0 w \<Longrightarrow> I (db w)"
proof (induction rule: reachable.induct)
  case start
  then show ?case by (rule assms(2))
next
  case (run w c req r w')
  then show ?case using assms(1) [of c req] by (auto simp: within_def keeps_def)
qed

section \<open>Invariants of a store are invariants of the service\<close>

text \<open>
  The interface between the handlers and the store, for an invariant of the tables: other sessions keep
  it, and so does every writing operation of the store on the inputs the handlers give it. Then every
  run of the service keeps it. The handlers' part of the bargain is in the conditions: a user name is
  validated before it is stored, a device's status and connectivity are the declared ones.
\<close>

definition liveness_values :: "update_device_liveness_input \<Rightarrow> bool" where
  "liveness_values input \<longleftrightarrow> dli_Status input \<in> {DeviceStatusPending, DeviceStatusEnrolled}
    \<and> dli_Connectivity input \<in> {DeviceConnectivityOnline, DeviceConnectivityOffline}"

locale store_invariant =
  fixes E :: "'x env" and I :: "database \<Rightarrow> bool"
  assumes keeps_resolve: "lawful E I \<Longrightarrow> validateUsername (ui_Username input) = Inr ()
      \<Longrightarrow> within (keeps I) (store_ResolveOrCreateUser E input)"
    and keeps_create: "lawful E I \<Longrightarrow> validateUsername (ui_Username input) = Inr ()
      \<Longrightarrow> within (keeps I) (store_CreateUser E input)"
    and keeps_update: "lawful E I
      \<Longrightarrow> (\<And>n. uu_Username update = Some n \<Longrightarrow> validateUsername n = Inr ())
      \<Longrightarrow> within (keeps I) (store_UpdateUser E i update)"
    and keeps_delete: "lawful E I \<Longrightarrow> within (keeps I) (store_DeleteUser E i)"
    and keeps_token: "lawful E I \<Longrightarrow> within (keeps I) (store_CreateAPIToken E cti)"
    and keeps_revoke: "lawful E I \<Longrightarrow> within (keeps I) (store_RevokeAPIToken E i k)"
    and keeps_touch: "lawful E I \<Longrightarrow> within (keeps I) (store_ResolveAPIToken E h)"
    and keeps_device: "lawful E I \<Longrightarrow> within (keeps I) (store_CreateDevice E cdi)"
    and keeps_liveness: "lawful E I \<Longrightarrow> liveness_values dli
      \<Longrightarrow> within (keeps I) (store_UpdateDeviceLiveness E dli)"
    and keeps_remove: "lawful E I \<Longrightarrow> within (keeps I) (store_DeleteDevice E i k)"
begin

lemmas keeps_writes = keeps_resolve keeps_create keeps_update keeps_delete keeps_token keeps_revoke
  keeps_touch keeps_device keeps_liveness keeps_remove

lemma kept_auth:
  "within (keeps I) (checkClusterAdmin E c i)" "within (keeps I) (requireClusterAdmin E c)"
  "within (keeps I) (resolveClusterRole E c i)" "within (keeps I) (syncClusterRole E c i role)"
  unfolding checkClusterAdmin_def requireClusterAdmin_def resolveClusterRole_def syncClusterRole_def
  by (intro kept.within_rules kept_ext_call)+

lemma kept_sign_in:
  assumes "lawful E I"
  shows "within (keeps I) (ResolveOrCreateUser E c req)"
  unfolding ResolveOrCreateUser_def register_resolved_def Let_def
  by (intro kept.within_rules kept_ext_call keeps_writes assms within_try_usernames kept.state_preorder_axioms)
    (simp_all add: newUsernameCandidateIterator_def derived_base_valid)

lemma kept_create_named:
  assumes "lawful E I"
  shows "within (keeps I) (create_named E req)"
proof -
  have named: "within (keeps I) (call (lift (validateUsername v)) f
      (\<lambda>_. call (store_CreateUser E (input v)) toStatusError ret))"
    if "\<And>v. ui_Username (input v) = v" for v f and input :: "string \<Rightarrow> user_input"
  proof (cases "validateUsername v = Inr ()")
    case True
    then have "within (keeps I) (call (store_CreateUser E (input v)) toStatusError ret)"
      by (intro kept.within_rules keeps_create assms) (simp add: that)
    then show ?thesis by (simp add: True within_def)
  next
    case False
    then obtain e where "validateUsername v = Inl e" by (cases "validateUsername v") auto
    then show ?thesis by (simp add: within_def keeps_def)
  qed
  show ?thesis
    unfolding create_named_def Let_def
    by (intro kept.within_rules named within_try_usernames kept.state_preorder_axioms kept_ext_call keeps_create assms)
      (simp_all add: newUsernameCandidateIterator_def derived_base_valid)
qed

lemma kept_create_user:
  assumes "lawful E I"
  shows "within (keeps I) (CreateUser E c req)"
  unfolding CreateUser_def finish_create_def undo_create_def
  by (intro kept.within_rules kept_auth kept_create_named kept_ext_call keeps_delete assms)

text \<open>An update whose name, if any, passed the validation.\<close>

lemma kept_validated_update:
  assumes "lawful E I" and "uu_Username update = name"
    and "\<And>u. within (keeps I) (k u)"
  shows "within (keeps I) (call (lift (case name of None \<Rightarrow> Inr () | Some v \<Rightarrow> validateUsername v)) f
      (\<lambda>_. call (if b then store_UpdateUser E i update else store_GetUser E i) g k))"
proof (cases "\<exists>v. name = Some v \<and> validateUsername v \<noteq> Inr ()")
  case True
  then obtain v e where "name = Some v" "validateUsername v = Inl e"
    by (metis (full_types) old.sum.exhaust old.unit.exhaust)
  then show ?thesis by (simp add: within_def keeps_def)
next
  case False
  then show ?thesis
    using assms by (intro kept.within_rules keeps_update kept_reads) auto
qed

lemma kept_update_user:
  assumes "lawful E I"
  shows "within (keeps I) (UpdateUser E c req)"
proof -
  let ?update = "\<lparr>uu_Name = uur_Name req, uu_Email = uur_Email req, uu_Nickname = uur_Nickname req,
    uu_Username = uur_Username req, uu_PhotoURL = uur_PhotoUrl req\<rparr>"
  have k: "within (keeps I) (call (case uur_ClusterRole req of None \<Rightarrow> ret () | Some role \<Rightarrow> syncClusterRole E c i role)
      f (\<lambda>_. ret (toProtoUser E u)))" for i f u
    by (intro kept.within_rules kept_auth)
  have v: "within (keeps I) (call (lift (case uur_Username req of None \<Rightarrow> Inr () | Some v \<Rightarrow> validateUsername v)) f
      (\<lambda>_. call (if b then store_UpdateUser E i ?update else store_GetUser E i) g
        (\<lambda>u. call (case uur_ClusterRole req of None \<Rightarrow> ret () | Some role \<Rightarrow> syncClusterRole E c i role)
          h (\<lambda>_. ret (toProtoUser E u)))))" for f g h b i
    by (rule kept_validated_update [OF assms]) (simp_all add: k)
  show ?thesis
    unfolding UpdateUser_def Let_def
    by (rule kept.within_call [OF kept_auth(2)], rule kept.within_call [OF kept.within_lift],
        rule kept.within_call [OF kept.within_lift], rule within_branches(1) [OF kept.within_fail], rule v)
qed

lemma kept_update_me:
  assumes "lawful E I"
  shows "within (keeps I) (UpdateMe E c req)"
proof -
  let ?update = "\<lparr>uu_Name = umr_Name req, uu_Email = None, uu_Nickname = None, uu_Username = umr_Username req,
    uu_PhotoURL = None\<rparr>"
  have k: "within (keeps I) (call (resolveClusterRole E c i) f (\<lambda>role. ret (toProtoUser E u, role)))" for i f u
    by (intro kept.within_rules kept_auth)
  have v: "within (keeps I) (call (lift (case umr_Username req of None \<Rightarrow> Inr () | Some v \<Rightarrow> validateUsername v)) f
      (\<lambda>_. call (store_UpdateUser E i ?update) g
        (\<lambda>u. call (resolveClusterRole E c i) h (\<lambda>role. ret (toProtoUser E u, role)))))" for f g h i
  proof -
    have "within (keeps I) (call (lift (case umr_Username req of None \<Rightarrow> Inr () | Some v \<Rightarrow> validateUsername v)) f
      (\<lambda>_. call (if True then store_UpdateUser E i ?update else store_GetUser E i) g
        (\<lambda>u. call (resolveClusterRole E c i) h (\<lambda>role. ret (toProtoUser E u, role)))))"
      by (rule kept_validated_update [OF assms]) (simp_all add: k)
    then show ?thesis by simp
  qed
  show ?thesis
    unfolding UpdateMe_def caller_def
    by (rule kept.within_call [OF kept.within_lift], rule within_branches(1) [OF kept.within_fail], rule v)
qed

lemma kept_poll:
  assumes "lawful E I"
  shows "within (keeps I) (PollDeviceLiveness E c)"
proof -
  have status: "s \<in> {DeviceStatusPending, DeviceStatusEnrolled}" if "deviceStatusFromZiti st = Inr s" for st s
    using that by (cases st) (auto simp: deviceStatusFromZiti_def)
  have stores: "within (keeps I) (store_UpdateDeviceLiveness E (liveness_input d s (deviceConnectivityFromZiti b) now))"
    if "deviceStatusFromZiti st = Inr s" for d s b now st
    by (intro keeps_liveness assms)
      (use status [OF that] in \<open>simp add: liveness_values_def liveness_input_def deviceConnectivityFromZiti_def\<close>)
  have lifted: "within (keeps I) (call (lift (deviceStatusFromZiti st)) id k)"
    if "\<And>s. deviceStatusFromZiti st = Inr s \<Longrightarrow> within (keeps I) (k s)" for st and k :: "device_status \<Rightarrow> ('x world, unit) go"
    using that by (cases "deviceStatusFromZiti st") (auto simp: within_def keeps_def)
  have one: "within (keeps I) (pollDeviceLiveness E c d)" for d
    unfolding pollDeviceLiveness_def Let_def
    by (rule within_branches(1) [OF kept.within_ret], rule kept.within_call [OF kept_ext_call], rule lifted,
        rule within_branches(1) [OF kept.within_ret], rule kept.within_call [OF kept_ext_value],
        rule kept.within_call [OF stores kept.within_ret])
  show ?thesis
    unfolding PollDeviceLiveness_def poll_user_def
    by (intro within_page_loop kept.state_preorder_axioms kept_reads assms kept.within_rules one kept_ops)
qed

lemma kept_serve:
  assumes "lawful E I"
  shows "within (keeps I) (serve E c req)"
  by (cases req; simp only: serve.simps outcome_def; intro kept.within_call kept.within_ret kept_sign_in
      kept_create_user kept_update_user kept_update_me kept_poll kept_reconcile assms;
      unfold GetUser_def GetUserByOIDCSubject_def BatchGetUsers_def CreateAPIToken_def ListAPITokens_def
        RevokeAPIToken_def ResolveAPIToken_def CreateDevice_def ListDevices_def DeleteDevice_def GetMe_def
        SearchUsers_def ListUsers_def DeleteUser_def caller_def requested_expiry_def handle_message_def Let_def;
      intro kept.within_rules kept_auth kept_ops keeps_writes kept_ext_call kept_ext_value assms)

lemma reachable_invariant:
  "lawful E I \<Longrightarrow> I (db w0) \<Longrightarrow> reachable E w0 w \<Longrightarrow> I (db w)"
  by (rule reachable_keeps [OF kept_serve])

end

text \<open>The constraints of the schema.\<close>

interpretation constraints: store_invariant E schema_ok for E
  by unfold_locales (simp_all add: kept_store)

section \<open>What is stored is valid\<close>

text \<open>Every stored user name is valid, every stored device has a status and a connectivity the store can read.\<close>

definition row_valid :: "user_row \<Rightarrow> bool" where
  "row_valid r \<longleftrightarrow> (case u_username r of None \<Rightarrow> True | Some n \<Rightarrow> validateUsername n = Inr ())"

definition device_row_valid :: "device_row \<Rightarrow> bool" where
  "device_row_valid v \<longleftrightarrow> d_status v \<in> {DeviceStatusPending, DeviceStatusEnrolled}
    \<and> d_connectivity v \<in> {DeviceConnectivityOnline, DeviceConnectivityOffline}"

definition stored_ok :: "database \<Rightarrow> bool" where
  "stored_ok d \<longleftrightarrow> list_all row_valid (users d) \<and> list_all device_row_valid (user_devices d)"

lemma stored_insert_user:
  "stored_ok d \<Longrightarrow> validateUsername (ui_Username input) = Inr () \<Longrightarrow> stored_ok (snd (sql_insert_user (user_row_of s i input) d))"
  by (simp add: stored_ok_def sql_insert_user_def user_row_of_def row_valid_def split: option.split)

lemma stored_update_user:
  assumes "stored_ok d" and "\<And>n. uu_Username update = Some n \<Longrightarrow> validateUsername n = Inr ()"
  shows "stored_ok (snd (sql_update_user (apply_user_update update now) i d))"
proof -
  have "row_valid (apply_user_update update now r)" if "row_valid r" for r
    using assms(2) that by (auto simp: row_valid_def apply_user_update_def split: option.splits)
  then show ?thesis
    using assms(1) by (auto simp: stored_ok_def sql_update_user_def list_all_iff split: list.split option.split)
qed

lemma stored_statements:
  assumes "stored_ok d"
  shows "stored_ok (snd (sql_delete_user i d))" "stored_ok (snd (sql_insert_token t d))"
    "stored_ok (snd (sql_delete_token k i d))" "stored_ok (snd (sql_touch_token now h d))"
    "device_row_valid v \<Longrightarrow> stored_ok (snd (sql_insert_device v d))"
    "(\<And>v. device_row_valid v \<Longrightarrow> device_row_valid (f v)) \<Longrightarrow> stored_ok (snd (sql_update_device f k d))"
    "stored_ok (snd (sql_delete_device k i d))"
  using assms by (auto simp: stored_ok_def sql_defs list_all_iff Let_def)

interpretation stored: store_invariant E stored_ok for E
proof
  assume law: "lawful E stored_ok"
  show "within (keeps stored_ok) (store_ResolveOrCreateUser E input)"
    if "validateUsername (ui_Username input) = Inr ()" for input
    unfolding store_ResolveOrCreateUser_def insert_user_def
    by (intro kept.within_rules kept_reads kept_query_row kept_ext_value law stored_insert_user that)
  show "within (keeps stored_ok) (store_CreateUser E input)"
    if "validateUsername (ui_Username input) = Inr ()" for input
    unfolding store_CreateUser_def insert_user_def
    by (intro kept.within_rules kept_query_row kept_ext_value law stored_insert_user that)
  show "within (keeps stored_ok) (store_UpdateUser E i update)"
    if "\<And>n. uu_Username update = Some n \<Longrightarrow> validateUsername n = Inr ()" for i update
    unfolding store_UpdateUser_def Let_def update_exec
    by (intro kept.within_rules kept_query_row law stored_update_user that)
  show "within (keeps stored_ok) (store_UpdateDeviceLiveness E dli)" if "liveness_values dli" for dli
    unfolding store_UpdateDeviceLiveness_def
    by (intro kept_query_row law stored_statements)
      (use that in \<open>simp_all add: liveness_values_def device_liveness_set_def device_row_valid_def\<close>)
qed (auto simp: store_defs intro!: kept.within_rules kept_query_row kept_run_sql stored_statements
    simp: device_row_valid_def DeviceConnectivityOffline_def)

text \<open>
  C2. In every reachable state every stored user name is one the validation accepts, whether it was chosen
  by the user, by an administrator or derived at sign-in, and every stored device has a status and a
  connectivity that the store reads back without an error.
\<close>

theorem service_stores_valid_rows:
  assumes "lawful E stored_ok" and "stored_ok (db w0)" and "reachable E w0 w"
  shows "stored_ok (db w)"
  using assms by (rule stored.reachable_invariant)

end
