(* ===== verification/Demo_Env.thy ===== *)
theory Demo_Env
  imports Group_Sync
begin

text \<open>
  A small concrete outside world, with a counter as its state, in which the hypotheses of the theorems
  can be seen to hold: nobody else writes, no statement fails, ids are printed in decimal, the user with
  id 1 is a cluster administrator, and every user is in the group \<open>g1\<close> of organization 9.
\<close>

definition parse_decimal :: "string \<Rightarrow> go_err + uuid" where
  "parse_decimal s =
    (case read_number s 0 of None \<Rightarrow> Inl (External ''invalid UUID'')
     | Some n \<Rightarrow> if s = [] then Inl (External ''invalid UUID length: 0'') else Inr (of_nat n))"

definition demo_groups ::
  "ctx \<Rightarrow> list_member_groups_request \<Rightarrow> nat \<Rightarrow> (go_err + list_member_groups_response) \<times> nat" where
  "demo_groups c req x = (Inr \<lparr>lg_group_ids = [''g1''], lg_next_page_token = []\<rparr>, x)"

definition demo :: "nat env" where
  "demo = \<lparr>
    e_session = (\<lambda>x. (\<lparr>s_interfere = id, s_now = int x, s_uuid = of_nat x, s_fault = NoFault\<rparr>, x + 1)),
    e_collate = (\<lambda>a b. a \<le> b),
    e_db_time = id,
    e_now = (\<lambda>x. (int x, x + 1)),
    e_rand_read = (\<lambda>n x. (Inr (replicate n (of_nat x)), x + 1)),
    e_rand_int = (\<lambda>n x. (if n = 0 then Inl (External ''argument to Int is <= 0'') else Inr (x mod n), x + 1)),
    e_uuid_new = (\<lambda>x. (of_nat x, x + 1)),
    e_uuid_string = (\<lambda>u. decimal (unat u)),
    e_uuid_parse = parse_decimal,
    e_status_code = error_code,
    e_ts_new = (\<lambda>t. Timestamp t 0),
    e_ts_check = (\<lambda>ts. Inr ()),
    e_ts_time = ts_seconds,
    e_unmarshal_added = (\<lambda>s. Inr \<lparr>me_member_type = MEMBER_TYPE_USER, me_member_id = s, me_group_id = ''g1''\<rparr>),
    e_unmarshal_removed = (\<lambda>s. Inr \<lparr>me_member_type = MEMBER_TYPE_USER, me_member_id = s, me_group_id = ''g2''\<rparr>),
    e_check = (\<lambda>c t x. (Inr (tk_user t = ''identity:1''), x)),
    e_write = (\<lambda>c r x. (Inr (), x)),
    e_list_objects = (\<lambda>c r x. (Inr [''organization:9''], x)),
    e_register_identity = (\<lambda>c r x. (Inr (), x)),
    e_create_device_identity = (\<lambda>c r x. (Inr \<lparr>cd_ziti_identity_id = ''ziti'', cd_enrollment_jwt = ''jwt''\<rparr>, x)),
    e_delete_device_identity = (\<lambda>c i x. (Inr (), x)),
    e_patch_role_attributes = (\<lambda>c r x. (Inr (), x)),
    e_identity_liveness = (\<lambda>c i x. (Inr \<lparr>lv_enrollment_state = ENROLLMENT_STATE_ENROLLED, lv_has_edge_router_connection = True\<rparr>, x)),
    e_msg_ack = (\<lambda>s d x. (Inr (), x)),
    e_msg_nak = (\<lambda>s d x. (Inr (), x)),
    e_groups_client = Some demo_groups\<rparr>"

text \<open>A request of the user with an id, and the state at the start.\<close>

definition as_user :: "string \<Rightarrow> ctx" where
  "as_user i = \<lparr>incoming = Some (\<lambda>k. if k = ''x-identity-id'' then [i] else []), outgoing = []\<rparr>"

definition fresh :: "nat world" where
  "fresh = \<lparr>db = empty_database, ext = 5\<rparr>"

text \<open>The same world with a second state beside the counter, for OpenZiti, and its operations on that state.\<close>

definition beside :: "(nat \<Rightarrow> 'r \<times> nat) \<Rightarrow> nat \<times> 's \<Rightarrow> 'r \<times> (nat \<times> 's)" where
  "beside f s = (case s of (x, z) \<Rightarrow> (case f x of (r, y) \<Rightarrow> (r, (y, z))))"

lemma beside_simps [simp]: "fst (beside f s) = fst (f (fst s))" "snd (snd (beside f s)) = snd s"
  by (simp_all add: beside_def split: prod.split)

definition demo_with ::
  "(patch_role_attributes_request \<Rightarrow> nat \<times> 's \<Rightarrow> (go_err + unit) \<times> (nat \<times> 's))
    \<Rightarrow> (create_device_identity_request \<Rightarrow> nat \<times> 's \<Rightarrow> (go_err + create_device_identity_response) \<times> (nat \<times> 's))
    \<Rightarrow> (string \<Rightarrow> nat \<times> 's \<Rightarrow> (go_err + unit) \<times> (nat \<times> 's)) \<Rightarrow> (nat \<times> 's) env" where
  "demo_with patch create delete = \<lparr>
    e_session = beside (e_session demo), e_collate = e_collate demo, e_db_time = e_db_time demo,
    e_now = beside (e_now demo), e_rand_read = (\<lambda>n. beside (e_rand_read demo n)),
    e_rand_int = (\<lambda>n. beside (e_rand_int demo n)), e_uuid_new = beside (e_uuid_new demo),
    e_uuid_string = e_uuid_string demo, e_uuid_parse = e_uuid_parse demo, e_status_code = e_status_code demo,
    e_ts_new = e_ts_new demo, e_ts_check = e_ts_check demo, e_ts_time = e_ts_time demo,
    e_unmarshal_added = e_unmarshal_added demo, e_unmarshal_removed = e_unmarshal_removed demo,
    e_check = (\<lambda>c t. beside (e_check demo c t)), e_write = (\<lambda>c r. beside (e_write demo c r)),
    e_list_objects = (\<lambda>c r. beside (e_list_objects demo c r)),
    e_register_identity = (\<lambda>c r. beside (e_register_identity demo c r)),
    e_create_device_identity = (\<lambda>c. create), e_delete_device_identity = (\<lambda>c. delete),
    e_patch_role_attributes = (\<lambda>c. patch),
    e_identity_liveness = (\<lambda>c i. beside (e_identity_liveness demo c i)),
    e_msg_ack = (\<lambda>s d. beside (e_msg_ack demo s d)), e_msg_nak = (\<lambda>s d. beside (e_msg_nak demo s d)),
    e_groups_client = Some (\<lambda>c req. beside (demo_groups c req))\<rparr>"

section \<open>The hypotheses hold\<close>

lemma read_digit_char: "d < 10 \<Longrightarrow> read_digit (digit_char d) = Some d"
proof -
  have "\<forall>d \<in> {0..<10}. read_digit (digit_char d) = Some d" by code_simp
  then show "d < 10 \<Longrightarrow> read_digit (digit_char d) = Some d" by simp
qed

lemma read_number_snoc:
  "read_number (s @ [c]) n = (case read_number s n of None \<Rightarrow> None
    | Some m \<Rightarrow> (case read_digit c of None \<Rightarrow> None | Some d \<Rightarrow> Some (10 * m + d)))"
  by (induction s n rule: read_number.induct) (auto split: option.split)

lemma read_number_digits:
  "\<forall>d \<in> set ds. d < 10 \<Longrightarrow> read_number (map digit_char (rev ds)) 0 = Some (of_digits 10 ds)"
  by (induction ds) (simp_all add: read_number_snoc read_digit_char)

lemma read_decimal: "read_number (decimal n) 0 = Some n"
proof (cases "n = 0")
  case True
  have "read_digit CHR ''0'' = Some 0" using read_digit_char [of 0] by simp
  with True show ?thesis by (simp add: decimal_def)
next
  case False
  then show ?thesis
    using read_number_digits [of "to_digits 10 n"] to_digits_less [of _ 10 n] by (simp add: decimal_def)
qed

lemma demo_codec: "uuid_codec demo"
  by (simp add: uuid_codec_def demo_def parse_decimal_def read_decimal)

lemma demo_quiet: "quiet demo"
  by (simp add: quiet_def demo_def)

lemma demo_lawful: "lawful demo I"
  by (rule quiet_lawful [OF demo_quiet])

lemma demo_rand: "rand_int_ok demo"
  by (simp add: rand_int_ok_def demo_def split: if_splits)

lemma demo_groups_end: "groups_pages_end demo"
  by (simp add: groups_pages_end_def demo_def demo_groups_def)

lemma demo_string_not_Nil: "e_uuid_string demo u \<noteq> []"
  by (simp add: demo_def)

lemma demo_with_quiet: "quiet (demo_with patch create delete)"
  using demo_quiet by (simp add: quiet_def demo_with_def)

end
