(* ===== verification/Access.thy ===== *)
theory Access
  imports Service Demo_Env
begin

text \<open>
  Who may do what, and that every run of the service comes to an end. The authorization service and the
  request's metadata are arbitrary.
\<close>

section \<open>Callers and administrators\<close>

text \<open>The methods only a cluster administrator may use, and those that need to know the caller.\<close>

fun admin_only :: "request \<Rightarrow> bool" where
  "admin_only (R_GetUser i) = True"
| "admin_only (R_UpdateUser req) = True"
| "admin_only (R_ListUsers req) = True"
| "admin_only (R_CreateUser req) = True"
| "admin_only (R_DeleteUser i) = True"
| "admin_only _ = False"

fun needs_caller :: "request \<Rightarrow> bool" where
  "needs_caller (R_ResolveOrCreateUser req) = False"
| "needs_caller (R_GetUserByOIDCSubject s) = False"
| "needs_caller (R_BatchGetUsers ids) = False"
| "needs_caller (R_ResolveAPIToken h) = False"
| "needs_caller (R_Message subject data) = False"
| "needs_caller R_Reconcile = False"
| "needs_caller R_PollLiveness = False"
| "needs_caller _ = True"

lemma outcome_error: "m w = Some (Inl e, w') \<Longrightarrow> outcome m w = Some (Inl e, w')"
  by (simp add: outcome_def call_err)

lemma require_denied:
  assumes "identityIDFromContext E c = Inr i"
    and "e_check E c (admin_tuple E i) (ext w) = (Inr False, x)"
  shows "requireClusterAdmin E c w = Some (Inl (Status CodePermissionDenied ''cluster admin required''), w\<lparr>ext := x\<rparr>)"
  using assms by (simp add: requireClusterAdmin_def checkClusterAdmin_def call_def attempt_def ext_call_def)

lemma admin_denied:
  assumes "identityIDFromContext E c = Inr i"
    and "e_check E c (admin_tuple E i) (ext w) = (Inr False, x)"
  shows "call (requireClusterAdmin E c) id k w
    = Some (Inl (Status CodePermissionDenied ''cluster admin required''), w\<lparr>ext := x\<rparr>)"
  by (simp add: call_def attempt_def require_denied [OF assms])

text \<open>
  C4. A caller whom the authorization service does not call a cluster administrator gets PermissionDenied
  from every administrative method, whatever the request says; the one thing that happened is the check
  itself: no statement was run and no other service was called.
\<close>

theorem admin_required:
  assumes "admin_only req" and "identityIDFromContext E c = Inr i"
    and "e_check E c (admin_tuple E i) (ext w) = (Inr False, x)"
  shows "serve E c req w = Some (Inl (Status CodePermissionDenied ''cluster admin required''), w\<lparr>ext := x\<rparr>)"
  using assms(1)
  by (cases req) (auto intro!: outcome_error simp: admin_denied [OF assms(2,3)] GetUser_def UpdateUser_def ListUsers_def CreateUser_def DeleteUser_def)

theorem admin_required_witness:
  "serve demo (as_user ''2'') (R_DeleteUser ''1'') fresh
    = Some (Inl (Status CodePermissionDenied ''cluster admin required''), fresh)"
proof -
  have i: "identityIDFromContext demo (as_user ''2'') = Inr 2" by code_simp
  have "e_check demo (as_user ''2'') (admin_tuple demo 2) (ext fresh) = (Inr False, ext fresh)" by code_simp
  from admin_required [OF _ i this, of "R_DeleteUser ''1''"] show ?thesis by simp
qed

text \<open>
  A request without a readable identity in its metadata gets Unauthenticated from every method that
  acts for a caller, and nothing at all has happened: neither the tables nor any other service were touched.
\<close>

theorem caller_required:
  assumes "needs_caller req" and "identityIDFromContext E c = Inl e"
  shows "serve E c req w = Some (Inl (Statusf CodeUnauthenticated ''identity not available'' e), w)"
  using assms
  by (cases req) (auto intro!: outcome_error simp: GetUser_def UpdateUser_def ListUsers_def CreateUser_def DeleteUser_def
      requireClusterAdmin_def caller_def CreateAPIToken_def ListAPITokens_def RevokeAPIToken_def CreateDevice_def
      ListDevices_def DeleteDevice_def GetMe_def UpdateMe_def SearchUsers_def call_def attempt_def)

theorem caller_required_witness:
  "serve demo background R_GetMe fresh
    = Some (Inl (Statusf CodeUnauthenticated ''identity not available'' (Errorf ''no metadata in context'')), fresh)"
  by (rule caller_required) (simp_all add: identityIDFromContext_def background_def)

section \<open>Every run ends\<close>

lemma returns_outcome: "returns m \<Longrightarrow> returns (outcome m)"
  unfolding outcome_def by (intro returns_intro)

lemma returns_auth [returns_intro]:
  "returns (checkClusterAdmin E c i)" "returns (requireClusterAdmin E c)"
  "returns (resolveClusterRole E c i)" "returns (syncClusterRole E c i role)"
  unfolding checkClusterAdmin_def requireClusterAdmin_def resolveClusterRole_def syncClusterRole_def
  by (intro returns_intro)+

lemma mapListResult_total:
  "(\<And>x. x \<in> set items \<Longrightarrow> convert x \<noteq> None) \<Longrightarrow> mapListResult E items next convert \<noteq> None"
proof -
  assume total: "\<And>x. x \<in> set items \<Longrightarrow> convert x \<noteq> None"
  have "all_some (map convert xs) \<noteq> None" if "set xs \<subseteq> set items" for xs
    using that total by (induction xs) (auto split: option.splits)
  then show ?thesis by (auto simp: mapListResult_def split: option.splits)
qed

lemma returns_list_devices: "returns (ListDevices E c req)"
proof -
  have "returns (call (store_ListDevices E i n cursor) toStatusError
      (\<lambda>result. need (mapListResult E (fst result) (snd result) (toProtoDevice E))))" for i n cursor
  proof (rule returns_call_value)
    fix w result w'
    assume "store_ListDevices E i n cursor w = Some (Inr result, w')"
    then have "mapListResult E (fst result) (snd result) (toProtoDevice E) \<noteq> None"
      using store_devices_ok(2) [of E i n cursor w "fst result" "snd result" w'] to_proto_device_total [where E = E]
      by (intro mapListResult_total) fastforce
    then show "need (mapListResult E (fst result) (snd result) (toProtoDevice E)) w' \<noteq> None" by auto
  qed (rule returns_store)
  then show ?thesis
    unfolding ListDevices_def caller_def by (rule returns_call [OF returns_lift returns_call [OF returns_lift]])
qed

lemma returns_create_device:
  assumes "groups_pages_end E"
  shows "returns (CreateDevice E c name)"
proof -
  have "returns (attempt (store_CreateDevice E input) (\<lambda>stored. case stored of
      Inl err \<Rightarrow> attempt (ext_call (e_delete_device_identity E c z)) (\<lambda>_. fail (toStatusError err))
    | Inr d \<Rightarrow> call (need (toProtoDevice E d)) id (\<lambda>p. ret \<lparr>cdr_Device = p, cdr_EnrollmentJwt = jwt\<rparr>)))"
    for input z jwt
  proof (rule returnsI)
    fix w
    obtain r w' where run: "store_CreateDevice E input w = Some (r, w')"
      using returnsD [OF returns_store(14)] by blast
    show "\<exists>q w''. attempt (store_CreateDevice E input) (\<lambda>stored. case stored of
        Inl err \<Rightarrow> attempt (ext_call (e_delete_device_identity E c z)) (\<lambda>_. fail (toStatusError err))
      | Inr d \<Rightarrow> call (need (toProtoDevice E d)) id (\<lambda>p. ret \<lparr>cdr_Device = p, cdr_EnrollmentJwt = jwt\<rparr>)) w
        = Some (q, w'')"
    proof (cases r)
      case (Inl err)
      then show ?thesis by (simp add: attempt_def run ext_call_run)
    next
      case (Inr d)
      then obtain p where "toProtoDevice E d = Some p"
        using to_proto_device_total store_devices_ok(1) run by blast
      with Inr show ?thesis by (simp add: attempt_def run)
    qed
  qed
  then show ?thesis
    unfolding CreateDevice_def caller_def
    by (rule returns_call [OF returns_lift returns_branches(1) [OF returns_fail returns_call
            [OF returns_userGroupRoleAttributes [OF assms] returns_call [OF returns_ext_call returns_branches(1)
              [OF returns_fail returns_branches(1) [OF returns_fail]]]]]])
qed

lemma returns_poll: "returns (PollDeviceLiveness E c)"
  unfolding PollDeviceLiveness_def store_pages
  by (rule user_pages.loop_returns)
    (unfold poll_user_def pollDeviceLiveness_def Let_def, intro returns_intro)

text \<open>
  C3. Every run of the service ends with a result or an error: no loop runs for ever and nothing panics,
  whatever other sessions do to the tables between two pages and whatever the other services answer. Only
  two promises of the outside are used: \<open>rand.Int\<close> stays below its bound, and the Groups service's
  pages run out.
\<close>

theorem every_run_ends:
  assumes "rand_int_ok E" and "groups_pages_end E"
  shows "\<exists>r w'. serve E c req w = Some (r, w')"
proof -
  have "returns (serve E c req)"
    by (cases req; simp only: serve.simps; (intro returns_outcome)?;
        (intro returns_list_devices returns_create_device returns_poll returns_reconcile assms)?;
        (unfold ResolveOrCreateUser_def register_resolved_def GetUser_def GetUserByOIDCSubject_def BatchGetUsers_def
          CreateAPIToken_def ListAPITokens_def RevokeAPIToken_def ResolveAPIToken_def DeleteDevice_def GetMe_def
          SearchUsers_def ListUsers_def CreateUser_def finish_create_def undo_create_def create_named_def DeleteUser_def UpdateUser_def
          UpdateMe_def caller_def requested_expiry_def handle_message_def Let_def)?;
        (intro returns_intro mapListResult_total assms)?; simp?)
  then show ?thesis by (rule returnsD)
qed

theorem every_run_ends_witness: "\<exists>r w'. serve demo background R_Reconcile fresh = Some (r, w')"
  by (rule every_run_ends [OF demo_rand demo_groups_end])

end
