(* ===== verification/Views.thy ===== *)
theory Views
  imports Group_Sync
begin

text \<open>
  What the reading calls of the synchronisation leave alone in the outside world: a view of it that no
  statement, no listing of objects and no listing of groups changes, such as the identities OpenZiti keeps
  and their attributes. The lemmas follow the operations of \<open>internal/server/group_sync.go\<close>. The
  second part is about a view that decides what the services answer: in two states that agree on it, the
  attributes of a user are the same.
\<close>

definition reads_keep :: "'x env \<Rightarrow> ('x \<Rightarrow> 'v) \<Rightarrow> bool" where
  "reads_keep E view \<longleftrightarrow>
    (\<forall>x. view (snd (e_session E x)) = view x)
    \<and> (\<forall>c req x. view (snd (e_list_objects E c req x)) = view x)
    \<and> (\<forall>gc c req x. e_groups_client E = Some gc \<longrightarrow> view (snd (gc c req x)) = view x)"

definition view_same :: "('x \<Rightarrow> 'v) \<Rightarrow> 'x world \<Rightarrow> 'x world \<Rightarrow> bool" where
  "view_same view w w' \<longleftrightarrow> view (ext w') = view (ext w)"

interpretation unchanged: state_preorder "view_same view" for view
  by unfold_locales (auto simp: view_same_def)

lemma same_view: "within (view_same view) m \<Longrightarrow> m w = Some (r, w') \<Longrightarrow> view (ext w') = view (ext w)"
  by (auto simp: within_def view_same_def)

lemma unchanged_ext_call: "(\<And>x. view (snd (f x)) = view x) \<Longrightarrow> within (view_same view) (ext_call f)"
  by (auto simp: within_def view_same_def ext_call_run)

lemma unchanged_run_sql: "reads_keep E view \<Longrightarrow> within (view_same view) (run_sql E stmt)"
  unfolding within_def
proof (intro allI impI)
  fix w r w'
  assume z: "reads_keep E view" and run: "run_sql E stmt w = Some (r, w')"
  obtain s x where s: "e_session E (ext w) = (s, x)" by fastforce
  have "view x = view (ext w)" using z s unfolding reads_keep_def by (metis snd_conv)
  with run s show "view_same view w w'" by (auto simp: run_sql_def view_same_def Let_def split: fault.splits)
qed

lemma unchanged_list:
  "reads_keep E view \<Longrightarrow> within (view_same view) (listEntities E T q col clauses vs sz scan idFunc cursor)"
  unfolding listEntities_def Let_def by (intro unchanged.within_rules unchanged_run_sql)

lemma unchanged_listAllUserDevices: "reads_keep E view \<Longrightarrow> within (view_same view) (listAllUserDevices E i)"
  unfolding listAllUserDevices_def store_pages
  by (intro within_page_loop unchanged.state_preorder_axioms unchanged_list unchanged.within_rules)

lemma unchanged_organization_groups:
  assumes "reads_keep E view" and "e_groups_client E = Some gc"
  shows "within (view_same view) (organization_groups E gc c userID ids groups)"
proof (induction ids arbitrary: groups)
  case Nil
  then show ?case by (simp add: within_def view_same_def)
next
  case (Cons i ids)
  have "within (view_same view) (ext_call (gc c req))" for req
    by (rule unchanged_ext_call) (use assms in \<open>simp add: reads_keep_def\<close>)
  then have "within (view_same view) (page_loop (member_groups_page E gc c userID i) (Wrap ''list member groups'')
      (\<lambda>groups page. ret (groups @ page)) groups None)"
    unfolding member_groups_page_def
    by (intro within_page_loop unchanged.state_preorder_axioms unchanged.within_rules)
  then have "within (view_same view) (call (page_loop (member_groups_page E gc c userID i) (Wrap ''list member groups'')
      (\<lambda>groups page. ret (groups @ page)) groups None) id (organization_groups E gc c userID ids))"
    using Cons.IH by (rule unchanged.within_call)
  then show ?case by (simp add: within_def)
qed

lemma unchanged_attributes:
  assumes "reads_keep E view"
  shows "within (view_same view) (userGroupRoleAttributes E c i)"
proof (cases "e_groups_client E")
  case None
  then show ?thesis by (simp add: userGroupRoleAttributes_def unchanged.within_ret)
next
  case (Some gc)
  have "within (view_same view) (ext_call (e_list_objects E c req))" for req
    by (rule unchanged_ext_call) (use assms in \<open>simp add: reads_keep_def\<close>)
  then have "within (view_same view) (listUserGroups E gc c i)"
    unfolding listUserGroups_def listUserOrganizationIDs_def
    by (intro unchanged.within_rules unchanged_organization_groups assms Some)
  then show ?thesis
    by (simp add: userGroupRoleAttributes_def Some) (intro unchanged.within_rules)
qed

section \<open>A view that decides the answers\<close>

text \<open>
  \<open>agrees view m\<close>: in states with the same view the call gives the same answer and leaves the same view.
\<close>

definition agrees :: "('x \<Rightarrow> 'v) \<Rightarrow> ('x world, 'a) go \<Rightarrow> bool" where
  "agrees view m \<longleftrightarrow> (\<forall>w (u :: 'x world) r w'. view (ext u) = view (ext w) \<longrightarrow> m w = Some (r, w')
    \<longrightarrow> (\<exists>u'. m u = Some (r, u') \<and> view (ext u') = view (ext w')))"

lemma agreesD:
  fixes u w :: "'x world"
  assumes "agrees view m" and "view (ext u) = view (ext w)" and "m w = Some (r, w')"
  obtains u' where "m u = Some (r, u')" "view (ext u') = view (ext w')"
  using assms unfolding agrees_def by blast

named_theorems agrees_intro \<open>calls whose answer a view decides\<close>

lemma agrees_ret [agrees_intro]: "agrees view (ret x)" and agrees_fail [agrees_intro]: "agrees view (fail e)"
  and agrees_lift [agrees_intro]: "agrees view (lift r)"
  by (simp_all add: agrees_def)

lemma agrees_ext_call:
  fixes f :: "'x \<Rightarrow> (go_err + 'a) \<times> 'x"
  assumes "\<And>x y. view y = view x \<Longrightarrow> fst (f y) = fst (f x)" and "\<And>x. view (snd (f x)) = view x"
  shows "agrees view (ext_call f)"
  unfolding agrees_def
proof (intro allI impI)
  fix w u :: "'x world" and r w'
  assume u: "view (ext u) = view (ext w)" and run: "ext_call f w = Some (r, w')"
  have "ext_call f u = Some (r, u\<lparr>ext := snd (f (ext u))\<rparr>)"
    using run by (simp add: ext_call_run assms(1) [OF u])
  moreover have "w' = w\<lparr>ext := snd (f (ext w))\<rparr>" using run by (simp add: ext_call_run)
  ultimately show "\<exists>u'. ext_call f u = Some (r, u') \<and> view (ext u') = view (ext w')"
    using u by (simp add: assms(2))
qed

lemma agrees_call [agrees_intro]:
  fixes m :: "('a world, 'b) go"
  assumes "agrees view m" and k: "\<And>x. agrees view (k x)"
  shows "agrees view (call m f k)"
  unfolding agrees_def
proof (intro allI impI)
  fix w u :: "'a world" and r w'
  assume u: "view (ext u) = view (ext w)" and run: "call m f k w = Some (r, w')"
  obtain q w1 where q: "m w = Some (q, w1)" using run by (cases "m w") (auto simp: call_def attempt_def)
  obtain u1 where u1: "m u = Some (q, u1)" "view (ext u1) = view (ext w1)"
    using assms(1) u q by (rule agreesD)
  show "\<exists>u'. call m f k u = Some (r, u') \<and> view (ext u') = view (ext w')"
  proof (cases q)
    case (Inl e)
    with run q u1 show ?thesis by (simp add: call_def attempt_def)
  next
    case (Inr x)
    then have "k x w1 = Some (r, w')" using run q by (simp add: call_def attempt_def)
    from agreesD [OF k u1(2) this] show ?thesis using u1(1) Inr by (auto simp: call_def attempt_def)
  qed
qed

lemma agrees_page_loop:
  fixes fetch :: "'c option \<Rightarrow> ('x world, 'a list \<times> 'c option) go"
  assumes fetch: "\<And>c. agrees view (fetch c)" and body: "\<And>acc xs. agrees view (body acc xs)"
  shows "agrees view (page_loop fetch wrap body acc c)"
proof -
  have "fetch = fetch \<longrightarrow> body = body \<longrightarrow> (\<forall>u :: 'x world. view (ext u) = view (ext w) \<longrightarrow>
      (\<exists>u'. page_loop fetch wrap body acc c u = Some (fst p, u') \<and> view (ext u') = view (ext (snd p))))"
    if "page_loop fetch wrap body acc c w = Some p" for w p
  proof (rule page_loop.raw_induct [where P = "\<lambda>fetch' wrap' body' acc c w p. fetch' = fetch \<longrightarrow> body' = body \<longrightarrow>
      (\<forall>u :: 'x world. view (ext u) = view (ext w) \<longrightarrow>
        (\<exists>u'. page_loop fetch' wrap' body' acc c u = Some (fst p, u') \<and> view (ext u') = view (ext (snd p))))",
      OF _ that], intro impI allI)
    fix loop fetch' wrap' body' acc c w p and u :: "'x world"
    assume IH: "\<And>fetch' wrap' body' acc cursor w y. loop fetch' wrap' body' acc cursor w = Some y \<Longrightarrow>
        fetch' = fetch \<longrightarrow> body' = body \<longrightarrow> (\<forall>u :: 'x world. view (ext u) = view (ext w) \<longrightarrow>
          (\<exists>u'. page_loop fetch' wrap' body' acc cursor u = Some (fst y, u') \<and> view (ext u') = view (ext (snd y))))"
      and run: "call (fetch' c) wrap' (\<lambda>page. call (body' acc (fst page)) id (\<lambda>acc' w'.
          case snd page of None \<Rightarrow> ret acc' w' | Some next \<Rightarrow> loop fetch' wrap' body' acc' (Some next) w')) w = Some p"
      and eq: "fetch' = fetch" "body' = body" and u: "view (ext u) = view (ext w)"
    obtain r w' where p: "p = (r, w')" by fastforce
    obtain q w1 where q: "fetch c w = Some (q, w1)"
      using run eq by (cases "fetch c w") (auto simp: call_def attempt_def)
    obtain u1 where u1: "fetch c u = Some (q, u1)" "view (ext u1) = view (ext w1)"
      using fetch u q by (rule agreesD)
    show "\<exists>u'. page_loop fetch' wrap' body' acc c u = Some (fst p, u') \<and> view (ext u') = view (ext (snd p))"
    proof (cases q)
      case (Inl e)
      with run q u1 eq p show ?thesis by (auto simp: page_loop_run [of _ _ _ _ _ u] call_def attempt_def)
    next
      case (Inr page)
      obtain xs n where page: "page = (xs, n)" by fastforce
      obtain b w2 where b: "body acc xs w1 = Some (b, w2)"
        using run eq q Inr page by (cases "body acc xs w1") (auto simp: call_def attempt_def)
      obtain u2 where u2: "body acc xs u1 = Some (b, u2)" "view (ext u2) = view (ext w2)"
        using body u1(2) b by (rule agreesD)
      show ?thesis
      proof (cases "\<exists>acc' c'. b = Inr acc' \<and> n = Some c'")
        case True
        then obtain acc' c' where more: "b = Inr acc'" "n = Some c'" by blast
        then have "loop fetch wrap' body acc' (Some c') w2 = Some p"
          using run eq q Inr page b by (simp add: call_def attempt_def)
        from IH [OF this, rule_format, OF refl refl u2(2)] show ?thesis
          using more u1 u2 Inr page eq by (simp add: page_loop_run [of _ _ _ _ _ u])
      next
        case False
        with run q u1 b u2 Inr page eq p show ?thesis
          by (cases b; cases n) (auto simp: page_loop_run [of _ _ _ _ _ u] call_def attempt_def)
      qed
    qed
  qed
  then show ?thesis unfolding agrees_def by (metis fst_conv snd_conv)
qed

text \<open>
  \<open>groups_steady E gv\<close>: the services answer which organizations and groups a user is in by the view \<open>gv\<close>
  alone, and no call of the synchronisation changes it. So nobody joins or leaves a group meanwhile.
\<close>

definition groups_steady :: "'x env \<Rightarrow> ('x \<Rightarrow> 'v) \<Rightarrow> bool" where
  "groups_steady E gv \<longleftrightarrow> reads_keep E gv
    \<and> (\<forall>c req x y. gv y = gv x \<longrightarrow> fst (e_list_objects E c req y) = fst (e_list_objects E c req x))
    \<and> (\<forall>gc c req x y. e_groups_client E = Some gc \<longrightarrow> gv y = gv x \<longrightarrow> fst (gc c req y) = fst (gc c req x))
    \<and> (\<forall>c req x. gv (snd (e_patch_role_attributes E c req x)) = gv x)
    \<and> (\<forall>s d x. gv (snd (e_msg_ack E s d x)) = gv x) \<and> (\<forall>s d x. gv (snd (e_msg_nak E s d x)) = gv x)"

lemma steady_reads: "groups_steady E gv \<Longrightarrow> reads_keep E gv"
  unfolding groups_steady_def by (rule conjunct1)

lemma steady_answers:
  assumes "groups_steady E gv" and "gv y = gv x"
  shows "fst (e_list_objects E c req y) = fst (e_list_objects E c req x)"
    and "e_groups_client E = Some gc \<Longrightarrow> fst (gc c req' y) = fst (gc c req' x)"
  using assms(1) [unfolded groups_steady_def, THEN conjunct2, THEN conjunct1, rule_format, OF assms(2)]
    assms(1) [unfolded groups_steady_def, THEN conjunct2, THEN conjunct2, THEN conjunct1, rule_format, OF _ assms(2)]
  by this

lemma steady_patch: "groups_steady E gv \<Longrightarrow> gv (snd (e_patch_role_attributes E c req x)) = gv x"
  and steady_answer: "groups_steady E gv \<Longrightarrow> gv (snd (e_msg_ack E s d x)) = gv x"
    "groups_steady E gv \<Longrightarrow> gv (snd (e_msg_nak E s d x)) = gv x"
  by (simp_all only: groups_steady_def)

lemma reads_keep_calls:
  "reads_keep E view \<Longrightarrow> view (snd (e_list_objects E c req x)) = view x"
  "reads_keep E view \<Longrightarrow> e_groups_client E = Some gc \<Longrightarrow> view (snd (gc c req' x)) = view x"
  by (simp_all only: reads_keep_def)

lemma agrees_organization_groups:
  assumes "groups_steady E gv" and "e_groups_client E = Some gc"
  shows "agrees gv (organization_groups E gc c userID ids groups)"
proof (induction ids arbitrary: groups)
  case Nil
  then show ?case by (simp add: agrees_def)
next
  case (Cons i ids)
  have "agrees gv (ext_call (gc c req))" for req
    by (rule agrees_ext_call)
      (rule steady_answers(2) [OF assms(1) _ assms(2)], assumption, rule reads_keep_calls(2) [OF steady_reads [OF assms(1)] assms(2)])
  then have "agrees gv (page_loop (member_groups_page E gc c userID i) (Wrap ''list member groups'')
      (\<lambda>groups page. ret (groups @ page)) groups None)"
    unfolding member_groups_page_def by (intro agrees_page_loop agrees_intro)
  then have "agrees gv (call (page_loop (member_groups_page E gc c userID i) (Wrap ''list member groups'')
      (\<lambda>groups page. ret (groups @ page)) groups None) id (organization_groups E gc c userID ids))"
    using Cons.IH by (rule agrees_call)
  then show ?case by (simp add: agrees_def)
qed

lemma agrees_attributes:
  assumes "groups_steady E gv"
  shows "agrees gv (userGroupRoleAttributes E c i)"
proof (cases "e_groups_client E")
  case None
  then show ?thesis by (simp add: userGroupRoleAttributes_def agrees_ret)
next
  case (Some gc)
  have "agrees gv (ext_call (e_list_objects E c req))" for req
    by (rule agrees_ext_call)
      (rule steady_answers(1) [OF assms(1)], assumption, rule reads_keep_calls(1) [OF steady_reads [OF assms(1)]])
  then have "agrees gv (listUserGroups E gc c i)"
    unfolding listUserGroups_def listUserOrganizationIDs_def
    by (intro agrees_intro agrees_organization_groups assms Some)
  then show ?thesis
    by (simp add: userGroupRoleAttributes_def Some) (intro agrees_intro)
qed

text \<open>The synchronisation leaves the view.\<close>

lemma unchanged_sync:
  assumes "groups_steady E gv"
  shows "within (view_same gv) (syncUserDeviceGroupRoles E c i candidates)"
proof -
  have "within (view_same gv) (ext_call (e_patch_role_attributes E c req))" for req
    by (rule unchanged_ext_call) (rule steady_patch [OF assms])
  then show ?thesis
    unfolding syncUserDeviceGroupRoles_def patch_device_def Let_def
    by (intro unchanged.within_rules unchanged_attributes unchanged_listAllUserDevices steady_reads assms)
qed

end
