(* ===== verification/Sync_Facts.thy ===== *)
theory Sync_Facts
  imports Access Views
begin

text \<open>
  What the synchronisation of the group role attributes achieves: which attributes a user should have,
  which candidates are stale, and what every device of the user carries after a membership event or a
  reconciliation. OpenZiti is only assumed to apply the patches it accepts.
\<close>

section \<open>The attributes of a user\<close>

lemma role_attributes_Inr:
  "role_attributes groups seen acc = Inr attrs \<Longrightarrow> distinct acc \<Longrightarrow> set acc \<subseteq> seen
    \<Longrightarrow> [] \<notin> set groups \<and> distinct attrs \<and> set attrs = set acc \<union> (groupRoleAttribute ` set groups - seen)"
proof (induction groups seen acc rule: role_attributes.induct)
  case (2 g groups seen acc)
  let ?g = "groupRoleAttribute g"
  have g: "g \<noteq> []" using "2.prems"(1) by (auto split: if_splits)
  show ?case
  proof (cases "?g \<in> seen")
    case True
    then have "role_attributes groups seen acc = Inr attrs" using "2.prems"(1) g by (simp add: Let_def)
    with "2.IH"(1) [OF g refl True] "2.prems"(2,3) g True show ?thesis by auto
  next
    case False
    then have "role_attributes groups (insert ?g seen) (acc @ [?g]) = Inr attrs"
      using "2.prems"(1) g by (simp add: Let_def)
    then have "[] \<notin> set groups \<and> distinct attrs \<and> set attrs = set (acc @ [?g])
        \<union> (groupRoleAttribute ` set groups - insert ?g seen)"
      using "2.IH"(2) [OF g refl False] "2.prems"(2,3) False by auto
    then show ?thesis using g False by auto
  qed
qed auto

lemma user_attributes_facts:
  assumes "userGroupRoleAttributes E c i w = Some (Inr attrs, w')"
  shows "sorted attrs \<and> distinct attrs \<and> (case e_groups_client E of None \<Rightarrow> attrs = []
    | Some gc \<Rightarrow> \<exists>groups. listUserGroups E gc c i w = Some (Inr groups, w') \<and> [] \<notin> set groups
        \<and> set attrs = groupRoleAttribute ` set groups)"
proof (cases "e_groups_client E")
  case None
  then show ?thesis using assms by (simp add: userGroupRoleAttributes_def)
next
  case (Some gc)
  obtain groups as where "listUserGroups E gc c i w = Some (Inr groups, w')"
      and r: "role_attributes groups {} [] = Inr as" and "attrs = sort_strings as"
    using assms unfolding userGroupRoleAttributes_def Some option.case by (elim callE) auto
  moreover from role_attributes_Inr [OF r]
  have "[] \<notin> set groups" "distinct as" "set as = groupRoleAttribute ` set groups" by simp_all
  ultimately show ?thesis by (auto simp: Some)
qed

text \<open>
  The role attributes of a user are exactly one \<open>group-\<close> attribute for every group that the Groups
  service lists for the user on any page of any of their organizations, in byte order and without
  duplicates; a group without an id makes the whole computation fail.
\<close>

theorem group_attributes_exact:
  assumes "userGroupRoleAttributes E c i w = Some (Inr attrs, w')"
  shows "sorted attrs \<and> distinct attrs \<and> (case e_groups_client E of None \<Rightarrow> attrs = []
    | Some gc \<Rightarrow> \<exists>groups. listUserGroups E gc c i w = Some (Inr groups, w') \<and> [] \<notin> set groups
        \<and> set attrs = groupRoleAttribute ` set groups)"
  by (rule user_attributes_facts [OF assms])

theorem group_attributes_exact_witness:
  "\<exists>w'. userGroupRoleAttributes demo background 1 fresh = Some (Inr [''group-g1''], w') \<and> sorted [''group-g1'']"
proof -
  have "case userGroupRoleAttributes demo background 1 fresh of Some (Inr a, w) \<Rightarrow> a = [''group-g1''] | _ \<Rightarrow> False"
    by code_simp
  then obtain w' where run: "userGroupRoleAttributes demo background 1 fresh = Some (Inr [''group-g1''], w')"
    by (auto split: option.splits prod.splits sum.splits)
  from group_attributes_exact [OF this] run show ?thesis by blast
qed

section \<open>Stale candidates\<close>

lemma stale_attributes_facts:
  "distinct remove \<Longrightarrow> set remove = seen \<Longrightarrow>
    distinct (stale_attributes desired attrs seen remove)
    \<and> set (stale_attributes desired attrs seen remove) = seen \<union> (set attrs - set desired - {[]})"
proof (induction desired attrs seen remove rule: stale_attributes.induct)
  case (2 desired attr attrs seen remove)
  then show ?case by (cases "attr = [] \<or> attr \<in> set desired \<or> attr \<in> seen") auto
qed simp

lemma stale_candidates_set: "set (staleCandidateAttributes desired candidates) = set candidates - set desired - {[]}"
  by (simp add: staleCandidateAttributes_def stale_attributes_facts)

text \<open>
  The attributes to remove are exactly the non-empty candidates that are not desired, in byte order and
  without duplicates, so an update never removes what it adds.
\<close>

theorem stale_candidates_exact:
  "set (staleCandidateAttributes desired candidates) = set candidates - set desired - {[]}
    \<and> sorted (staleCandidateAttributes desired candidates) \<and> distinct (staleCandidateAttributes desired candidates)"
  using stale_candidates_set by (simp add: staleCandidateAttributes_def stale_attributes_facts)

section \<open>What OpenZiti is assumed to do\<close>

text \<open>
  \<open>roles x z\<close> are the attributes of the OpenZiti identity \<open>z\<close> in the outside state \<open>x\<close>. A patch that is
  accepted adds and removes what it says, when the two do not overlap; the other calls of the
  synchronisation, and the answers to messages, do not touch attributes.
\<close>

definition ziti_applies :: "'x env \<Rightarrow> ('x \<Rightarrow> string \<Rightarrow> string set) \<Rightarrow> bool" where
  "ziti_applies E roles \<longleftrightarrow> reads_keep E roles
    \<and> (\<forall>s d x. roles (snd (e_msg_ack E s d x)) = roles x) \<and> (\<forall>s d x. roles (snd (e_msg_nak E s d x)) = roles x)
    \<and> (\<forall>c req x x'. e_patch_role_attributes E c req x = (Inr (), x') \<longrightarrow> set (pr_add req) \<inter> set (pr_remove req) = {}
       \<longrightarrow> roles x' = (roles x)(pr_ziti_identity_id req :=
             roles x (pr_ziti_identity_id req) \<union> set (pr_add req) - set (pr_remove req)))"

lemma ziti_reads: "ziti_applies E roles \<Longrightarrow> reads_keep E roles"
  by (simp add: ziti_applies_def)

lemma ziti_answers: "ziti_applies E roles \<Longrightarrow> roles (snd (e_msg_ack E s d x)) = roles x"
  by (simp add: ziti_applies_def)

text \<open>A message that was acknowledged was handled without an error; sending the answer changed nothing else.\<close>

lemma acknowledged_message:
  assumes "handle_message E subject data w = Some (Inr Ack, w')"
  obtains w1 where "HandleGroupMembershipEvent E background subject data w = Some (Inr (), w1)"
    "w' = w1\<lparr>ext := snd (e_msg_ack E subject data (ext w1))\<rparr>"
  using assms by (auto simp: handle_message_def attempt_def ext_call_run split: option.splits sum.splits)

section \<open>Every device is patched\<close>

definition patched :: "string set \<Rightarrow> string set \<Rightarrow> string set \<Rightarrow> (string \<Rightarrow> string set) \<Rightarrow> string \<Rightarrow> string set" where
  "patched Z A S R = (\<lambda>z. if z \<in> Z then R z \<union> A - S else R z)"

lemma patch_devices:
  assumes "ziti_applies E roles" and "set add \<inter> set remove = {}"
  shows "each (patch_device E c add remove) ds w = Some (Inr (), w') \<Longrightarrow>
    roles (ext w') = patched (set (map dev_OpenZitiIdentityID ds)) (set add) (set remove) (roles (ext w)) \<and> db w' = db w"
proof (induction ds arbitrary: w)
  case Nil
  then show ?case by (simp add: patched_def)
next
  case (Cons d ds)
  let ?req = "\<lparr>pr_ziti_identity_id = dev_OpenZitiIdentityID d, pr_add = add, pr_remove = remove\<rparr>"
  obtain w1 where one: "patch_device E c add remove d w = Some (Inr (), w1)"
      and rest: "each (patch_device E c add remove) ds w1 = Some (Inr (), w')"
    using Cons.prems by (auto simp: call_Inr_iff)
  obtain x where x: "e_patch_role_attributes E c ?req (ext w) = (Inr (), x)" and w1: "w1 = w\<lparr>ext := x\<rparr>"
    using one by (auto simp: patch_device_def call_Inr_iff ext_call_def split: prod.splits)
  have "roles x = (roles (ext w))(dev_OpenZitiIdentityID d :=
      roles (ext w) (dev_OpenZitiIdentityID d) \<union> set add - set remove)"
    using assms x unfolding ziti_applies_def by fastforce
  then show ?case
    using Cons.IH [OF rest] w1 assms(2) by (auto simp: patched_def fun_eq_iff)
qed

text \<open>The OpenZiti identities of a user's devices.\<close>

definition ziti_ids :: "uuid \<Rightarrow> database \<Rightarrow> string set" where
  "ziti_ids i d = d_openziti_identity_id ` {v \<in> set (user_devices d). d_identity_id v = i}"

lemma listed_devices:
  assumes "quiet E" and "schema_ok (db w)" and "stored_ok (db w)"
    and "listAllUserDevices E i w = Some (Inr devices, w')"
  shows "devices = map (\<lambda>v. projr (scanDevice v)) (sort_key d_id (filter (\<lambda>v. d_identity_id v = i) (user_devices (db w))))
    \<and> set (map dev_OpenZitiIdentityID devices) = ziti_ids i (db w) \<and> db w' = db w"
proof -
  have devices: "devices = map (\<lambda>v. projr (scanDevice v))
      (sort_key d_id (filter (\<lambda>v. d_identity_id v = i) (user_devices (db w))))"
    using device_pages.loop_collects [OF assms(4) [unfolded listAllUserDevices_def store_pages]] assms(1,2)
    by (simp add: rows_after_def devices_table_def)
  have "dev_OpenZitiIdentityID (projr (scanDevice v)) = d_openziti_identity_id v" if "v \<in> set (user_devices (db w))" for v
    using assms(3) that by (auto simp: stored_ok_def list_all_iff device_row_valid_def scanDevice_def)
  then have "set (map dev_OpenZitiIdentityID devices) = ziti_ids i (db w)"
    by (auto simp: devices ziti_ids_def image_iff)
  moreover have "db w' = db w" by (rule same_db [OF same_listAllUserDevices [OF assms(1)] assms(4)])
  ultimately show ?thesis using devices by blast
qed

lemma sync_result:
  assumes "quiet E" and "schema_ok (db w)" and "stored_ok (db w)" and "ziti_applies E roles"
    and "syncUserDeviceGroupRoles E c i candidates w = Some (Inr (), w')"
  shows "\<exists>attrs v. userGroupRoleAttributes E c i w = Some (Inr attrs, v)
    \<and> roles (ext w') = patched (ziti_ids i (db w)) (set attrs) (set candidates - set attrs - {[]}) (roles (ext w))
    \<and> db w' = db w"
proof -
  obtain attrs w1 devices w2 where attrs: "userGroupRoleAttributes E c i w = Some (Inr attrs, w1)"
      and devices: "listAllUserDevices E i w1 = Some (Inr devices, w2)"
      and each: "each (patch_device E c attrs (staleCandidateAttributes attrs candidates)) devices w2 = Some (Inr (), w')"
    using assms(5) unfolding syncUserDeviceGroupRoles_def Let_def by (elim callE)
  have w1: "db w1 = db w" "roles (ext w1) = roles (ext w)"
    using same_db [OF same_userGroupRoleAttributes attrs] same_view [OF unchanged_attributes [OF ziti_reads [OF assms(4)]] attrs] by simp_all
  note listed = listed_devices [OF assms(1) _ _ devices, unfolded w1, OF assms(2,3)]
  then have zs: "set (map dev_OpenZitiIdentityID devices) = ziti_ids i (db w)" and w2: "db w2 = db w" by blast+
  have "roles (ext w2) = roles (ext w)"
    using same_view [OF unchanged_listAllUserDevices [OF ziti_reads [OF assms(4)]] devices] w1 by simp
  moreover have "set attrs \<inter> set (staleCandidateAttributes attrs candidates) = {}"
    by (auto simp: stale_candidates_set)
  ultimately have "roles (ext w') = patched (ziti_ids i (db w)) (set attrs)
      (set (staleCandidateAttributes attrs candidates)) (roles (ext w)) \<and> db w' = db w"
    using patch_devices [OF assms(4) _ each] zs w2 by simp
  with attrs show ?thesis unfolding stale_candidates_set by blast
qed

text \<open>
  C5. After a membership message about a user was acknowledged, every device of that user carries exactly
  what it should: all the attributes of the groups the user is in now, the attribute of the message's
  group exactly when the user is in it, and its other attributes as before; the devices of other users and
  the tables are as they were. So an added member's devices have the group's attribute and a removed
  member's do not, whichever message arrives, and a message delivered twice does no harm.
\<close>

theorem membership_event_converges:
  assumes "quiet E" and "schema_ok (db w)" and "stored_ok (db w)" and "ziti_applies E roles"
    and "subject = groupMembershipAddedSubject \<and> e_unmarshal_added E data = Inr event
      \<or> subject = groupMembershipRemovedSubject \<and> e_unmarshal_removed E data = Inr event"
    and "me_member_type event = MEMBER_TYPE_USER" and "e_uuid_parse E (me_member_id event) = Inr i"
    and "me_group_id event = g" and "g \<noteq> []"
    and "handle_message E subject data w = Some (Inr Ack, w')"
  shows "\<exists>attrs v. userGroupRoleAttributes E background i w = Some (Inr attrs, v)
    \<and> (\<forall>z \<in> ziti_ids i (db w). set attrs \<subseteq> roles (ext w') z
        \<and> (''group-'' @ g \<in> roles (ext w') z \<longleftrightarrow> ''group-'' @ g \<in> set attrs)
        \<and> (\<forall>a. a \<noteq> ''group-'' @ g \<and> a \<notin> set attrs \<longrightarrow> (a \<in> roles (ext w') z \<longleftrightarrow> a \<in> roles (ext w) z)))
    \<and> (\<forall>z. z \<notin> ziti_ids i (db w) \<longrightarrow> roles (ext w') z = roles (ext w) z)
    \<and> db w' = db w"
proof -
  obtain w1 where "HandleGroupMembershipEvent E background subject data w = Some (Inr (), w1)"
    and ack: "w' = w1\<lparr>ext := snd (e_msg_ack E subject data (ext w1))\<rparr>"
    using assms(10) by (rule acknowledged_message)
  then have "syncUserDeviceGroupRoles E background i [groupRoleAttribute g] w = Some (Inr (), w1)"
    using assms(5-9)
    by (auto simp: HandleGroupMembershipEvent_def handleUserMembershipChange_def groupMembershipAddedSubject_def
        groupMembershipRemovedSubject_def)
  from sync_result [OF assms(1-4) this]
  obtain attrs v where "userGroupRoleAttributes E background i w = Some (Inr attrs, v)"
      and "roles (ext w') = patched (ziti_ids i (db w)) (set attrs) ({groupRoleAttribute g} - set attrs - {[]}) (roles (ext w))"
      and "db w' = db w"
    by (auto simp: ack ziti_answers [OF assms(4)])
  then show ?thesis
    by (auto simp: patched_def groupRoleAttribute_def groupRoleAttributePrefix_def split: if_splits)
qed

section \<open>Reconciliation\<close>

text \<open>What has been done for the users \<open>ids\<close> between the state \<open>w\<^sub>0\<close> and the present one.\<close>

definition reconciled ::
  "'x env \<Rightarrow> ctx \<Rightarrow> ('x \<Rightarrow> string \<Rightarrow> string set) \<Rightarrow> ('x \<Rightarrow> 'v) \<Rightarrow> 'x world \<Rightarrow> uuid list \<Rightarrow> 'x world \<Rightarrow> bool" where
  "reconciled E c roles gv w0 ids w \<longleftrightarrow> db w = db w0 \<and> gv (ext w) = gv (ext w0)
    \<and> (\<forall>z. roles (ext w0) z \<subseteq> roles (ext w) z)
    \<and> (\<forall>i \<in> set ids. \<exists>attrs v. userGroupRoleAttributes E c i w0 = Some (Inr attrs, v)
        \<and> (\<forall>z \<in> ziti_ids i (db w0). set attrs \<subseteq> roles (ext w) z))
    \<and> (\<forall>z. \<forall>a \<in> roles (ext w) z - roles (ext w0) z. \<exists>i attrs v. z \<in> ziti_ids i (db w0)
        \<and> userGroupRoleAttributes E c i w0 = Some (Inr attrs, v) \<and> a \<in> set attrs)"

lemma reconciled_same:
  "reconciled E c roles gv w0 ids w \<Longrightarrow> db w' = db w \<Longrightarrow> gv (ext w') = gv (ext w) \<Longrightarrow> roles (ext w') = roles (ext w)
    \<Longrightarrow> reconciled E c roles gv w0 ids w'"
  by (simp add: reconciled_def)

lemma reconcile_user:
  assumes "quiet E" and "schema_ok (db w0)" and "stored_ok (db w0)" and "ziti_applies E roles" and "groups_steady E gv"
    and "reconciled E c roles gv w0 ids w" and "syncUserDeviceGroupRoles E c i [] w = Some (Inr (), w')"
  shows "reconciled E c roles gv w0 (ids @ [i]) w'"
proof -
  have w: "db w = db w0" "gv (ext w0) = gv (ext w)" using assms(6) by (simp_all add: reconciled_def)
  obtain attrs v where attrs: "userGroupRoleAttributes E c i w = Some (Inr attrs, v)"
      and R: "roles (ext w') = patched (ziti_ids i (db w0)) (set attrs) {} (roles (ext w))" and d: "db w' = db w0"
    using sync_result [OF assms(1) _ _ assms(4,7)] assms(2,3) w by auto
  obtain v0 where start: "userGroupRoleAttributes E c i w0 = Some (Inr attrs, v0)"
    using agreesD [OF agrees_attributes [OF assms(5)] w(2) attrs] by blast
  have g: "gv (ext w') = gv (ext w)" by (rule same_view [OF unchanged_sync [OF assms(5)] assms(7)])
  have grows: "roles (ext w) z \<subseteq> roles (ext w') z" for z by (simp add: R patched_def)
  have new: "\<forall>z \<in> ziti_ids i (db w0). set attrs \<subseteq> roles (ext w') z" by (simp add: R patched_def)
  have old: "\<exists>attrs v. userGroupRoleAttributes E c j w0 = Some (Inr attrs, v)
      \<and> (\<forall>z \<in> ziti_ids j (db w0). set attrs \<subseteq> roles (ext w') z)" if j: "j \<in> set ids" for j
  proof -
    obtain as v where "userGroupRoleAttributes E c j w0 = Some (Inr as, v)"
        and "\<forall>z \<in> ziti_ids j (db w0). set as \<subseteq> roles (ext w) z"
      using assms(6) j unfolding reconciled_def by blast
    then show ?thesis using grows by blast
  qed
  have only: "\<exists>i attrs v. z \<in> ziti_ids i (db w0) \<and> userGroupRoleAttributes E c i w0 = Some (Inr attrs, v) \<and> a \<in> set attrs"
    if a: "a \<in> roles (ext w') z" "a \<notin> roles (ext w0) z" for z a
  proof (cases "a \<in> roles (ext w) z")
    case True
    then show ?thesis using assms(6) a(2) unfolding reconciled_def by blast
  next
    case False
    then have "z \<in> ziti_ids i (db w0)" "a \<in> set attrs" using a(1) by (auto simp: R patched_def split: if_splits)
    then show ?thesis using start by blast
  qed
  have "\<forall>z. roles (ext w0) z \<subseteq> roles (ext w') z" using assms(6) grows unfolding reconciled_def by blast
  with d g w(2) old new start only show ?thesis by (auto simp: reconciled_def)
qed

lemma reconcile_users:
  assumes "quiet E" and "schema_ok (db w0)" and "stored_ok (db w0)" and "ziti_applies E roles" and "groups_steady E gv"
  shows "each (\<lambda>u. syncUserDeviceGroupRoles E c (meta_ID (usr_Meta u)) []) us w = Some (Inr (), w')
    \<Longrightarrow> reconciled E c roles gv w0 ids w \<Longrightarrow> reconciled E c roles gv w0 (ids @ map (\<lambda>u. meta_ID (usr_Meta u)) us) w'"
proof (induction us arbitrary: w ids)
  case Nil
  then show ?case by simp
next
  case (Cons u us)
  obtain w1 where one: "syncUserDeviceGroupRoles E c (meta_ID (usr_Meta u)) [] w = Some (Inr (), w1)"
      and rest: "each (\<lambda>u. syncUserDeviceGroupRoles E c (meta_ID (usr_Meta u)) []) us w1 = Some (Inr (), w')"
    using Cons.prems(1) by (auto simp: call_Inr_iff)
  from Cons.IH [OF rest reconcile_user [OF assms Cons.prems(2) one]] show ?case by simp
qed

lemma reconcile_result:
  assumes "quiet E" and "schema_ok (db w)" and "stored_ok (db w)" and "ziti_applies E roles" and "groups_steady E gv"
    and "ReconcileAllUserDeviceGroupRoles E c w = Some (Inr (), w')"
  shows "reconciled E c roles gv w (map u_identity_id (sort_key u_identity_id (users (db w)))) w'"
proof -
  let ?P = "\<lambda>(us :: user list) (_ :: unit) v. reconciled E c roles gv w (map (\<lambda>u. meta_ID (usr_Meta u)) us) v"
  have "?P ([] @ map (\<lambda>r. projr (scanUser r)) (rows_after users_table u_identity_id (\<lambda>_. True) (db w) None)) () w'"
  proof (rule user_pages.loop_induct [where P = ?P, OF _ _ assms(6) [unfolded ReconcileAllUserDeviceGroupRoles_def store_pages]])
    show "quiet E \<and> schema_ok (db w)" using assms(1,2) by simp
    show "?P [] () w" by (simp add: reconciled_def)
  next
    fix us acc v cursor r v'
    assume P: "?P us acc v" and fetch: "listEntities E users_table (''SELECT '' @ userColumns @ '' FROM users'')
        ''identity_id'' [] [] MaxListPageSize scanUser (\<lambda>u. meta_ID (usr_Meta u)) cursor v = Some (r, v')"
    show "?P us acc v'"
      by (rule reconciled_same [OF P same_db [OF user_pages.same_fetch [OF assms(1)] fetch]
            same_view [OF unchanged_list [OF steady_reads [OF assms(5)]] fetch]
            same_view [OF unchanged_list [OF ziti_reads [OF assms(4)]] fetch]])
  next
    fix us :: "user list" and acc and page :: "user list" and v acc' v'
    assume P: "?P us acc v" and "quiet E \<and> schema_ok (db v)"
      and run: "each (\<lambda>u. syncUserDeviceGroupRoles E c (meta_ID (usr_Meta u)) []) page v = Some (Inr acc', v')"
    from reconcile_users [OF assms(1-5) _ P] run
    have "?P (us @ page) acc' v'" by simp
    moreover have "db v' = db v" using calculation P by (simp add: reconciled_def)
    ultimately show "?P (us @ page) acc' v' \<and> (quiet E \<and> schema_ok (db v')) \<and>
        (\<lambda>cursor. map (\<lambda>r. projr (scanUser r)) (rows_after users_table u_identity_id (\<lambda>_. True) (db v') cursor)) =
        (\<lambda>cursor. map (\<lambda>r. projr (scanUser r)) (rows_after users_table u_identity_id (\<lambda>_. True) (db v) cursor))"
      using \<open>quiet E \<and> schema_ok (db v)\<close> by simp
  qed
  moreover have "meta_ID (usr_Meta (projr (scanUser r))) = u_identity_id r" for r by (simp add: scanUser_def)
  ultimately show ?thesis by (simp add: rows_after_def users_table_def comp_def)
qed

text \<open>
  C6. A reconciliation that ends without an error has reached every device of every user: as long as nobody
  joins or leaves a group meanwhile, no other session writes, and OpenZiti applies the patches it accepts,
  the device carries all the attributes that computing them for its user at the start gives. It adds nothing
  else and removes nothing, and the tables are not touched.
\<close>

theorem reconciliation_reaches_all:
  assumes "quiet E" and "schema_ok (db w)" and "stored_ok (db w)" and "ziti_applies E roles" and "groups_steady E gv"
    and "ReconcileAllUserDeviceGroupRoles E c w = Some (Inr (), w')"
  shows "(\<forall>v \<in> set (user_devices (db w)). \<exists>attrs u. userGroupRoleAttributes E c (d_identity_id v) w = Some (Inr attrs, u)
      \<and> set attrs \<subseteq> roles (ext w') (d_openziti_identity_id v))
    \<and> (\<forall>z. \<forall>a \<in> roles (ext w') z - roles (ext w) z. \<exists>v \<in> set (user_devices (db w)). \<exists>attrs u. d_openziti_identity_id v = z
      \<and> userGroupRoleAttributes E c (d_identity_id v) w = Some (Inr attrs, u) \<and> a \<in> set attrs)
    \<and> (\<forall>z. roles (ext w) z \<subseteq> roles (ext w') z) \<and> db w' = db w"
proof -
  note all = reconcile_result [OF assms, unfolded reconciled_def]
  have reached: "\<exists>attrs u. userGroupRoleAttributes E c (d_identity_id v) w = Some (Inr attrs, u)
      \<and> set attrs \<subseteq> roles (ext w') (d_openziti_identity_id v)" if v: "v \<in> set (user_devices (db w))" for v
  proof -
    have "d_identity_id v \<in> user_ids (db w)"
      using assms(2) v by (auto simp: schema_ok_def devices_ok_def)
    moreover have "d_openziti_identity_id v \<in> ziti_ids (d_identity_id v) (db w)" using v by (auto simp: ziti_ids_def)
    ultimately show ?thesis using all unfolding user_ids_def by fastforce
  qed
  have only: "\<exists>v \<in> set (user_devices (db w)). \<exists>attrs u. d_openziti_identity_id v = z
      \<and> userGroupRoleAttributes E c (d_identity_id v) w = Some (Inr attrs, u) \<and> a \<in> set attrs"
    if a: "a \<in> roles (ext w') z - roles (ext w) z" for z a
  proof -
    have "\<exists>i attrs v. z \<in> ziti_ids i (db w) \<and> userGroupRoleAttributes E c i w = Some (Inr attrs, v) \<and> a \<in> set attrs"
      using all a by blast
    then show ?thesis by (auto simp: ziti_ids_def)
  qed
  show ?thesis using all reached only by blast
qed

section \<open>Witnesses\<close>

text \<open>The small outside world with the attributes of the OpenZiti identities as part of its state.\<close>

type_synonym ziti_state = "nat \<times> (string \<Rightarrow> string set)"

fun apply_patch :: "patch_role_attributes_request \<Rightarrow> ziti_state \<Rightarrow> (go_err + unit) \<times> ziti_state" where
  "apply_patch req (x, R) = (Inr (), (x, R(pr_ziti_identity_id req :=
     R (pr_ziti_identity_id req) \<union> set (pr_add req) - set (pr_remove req))))"

definition demo_ziti :: "ziti_state env" where
  "demo_ziti = demo_with apply_patch
    (\<lambda>req. beside (e_create_device_identity demo background req)) (\<lambda>z. beside (e_delete_device_identity demo background z))"

definition one_device :: database where
  "one_device = \<lparr>users = [\<lparr>u_identity_id = 1, u_oidc_subject = ''sub'', u_name = ''Bob'', u_email = [], u_nickname = [],
      u_username = Some ''bob'', u_photo_url = [], u_created_at = 3, u_updated_at = 3\<rparr>],
    user_api_tokens = [],
    user_devices = [\<lparr>d_id = 7, d_identity_id = 1, d_name = ''laptop'', d_openziti_identity_id = ''z7'',
      d_enrollment_jwt = None, d_status = ''enrolled'', d_connectivity = ''offline'', d_enrolled_at = Some 4,
      d_last_seen_at = None, d_created_at = 4\<rparr>]\<rparr>"

definition in_group_two :: "ziti_state world" where
  "in_group_two = \<lparr>db = one_device, ext = (5, \<lambda>z. {''group-g2''})\<rparr>"

lemma one_device_ok: "schema_ok one_device" "stored_ok one_device"
  by code_simp+

lemma demo_ziti_quiet: "quiet demo_ziti"
  by (simp add: demo_ziti_def demo_with_quiet)

lemma demo_ziti_steady: "groups_steady demo_ziti (\<lambda>x. ())"
  by (simp add: groups_steady_def reads_keep_def demo_ziti_def demo_with_def demo_def demo_groups_def)

lemma demo_ziti_applies: "ziti_applies demo_ziti snd"
  by (auto simp: ziti_applies_def reads_keep_def demo_ziti_def demo_with_def)

theorem membership_event_converges_witness:
  "\<exists>w'. handle_message demo_ziti groupMembershipRemovedSubject ''1'' in_group_two = Some (Inr Ack, w')
    \<and> ''group-g1'' \<in> snd (ext w') ''z7'' \<and> ''group-g2'' \<notin> snd (ext w') ''z7''"
proof -
  have "case handle_message demo_ziti groupMembershipRemovedSubject ''1'' in_group_two of
      Some (Inr a, w) \<Rightarrow> a = Ack | _ \<Rightarrow> False"
    by code_simp
  then obtain w' where run: "handle_message demo_ziti groupMembershipRemovedSubject ''1'' in_group_two = Some (Inr Ack, w')"
    by (auto split: option.splits prod.splits sum.splits)
  have "case userGroupRoleAttributes demo_ziti background 1 in_group_two of Some (Inr a, w) \<Rightarrow> a = [''group-g1''] | _ \<Rightarrow> False"
    by code_simp
  then have attrs: "attrs = [''group-g1'']"
    if "userGroupRoleAttributes demo_ziti background 1 in_group_two = Some (Inr attrs, v)" for attrs v
    using that by simp
  let ?event = "\<lparr>me_member_type = MEMBER_TYPE_USER, me_member_id = ''1'', me_group_id = ''g2''\<rparr>"
  have event: "groupMembershipRemovedSubject = groupMembershipAddedSubject \<and> e_unmarshal_added demo_ziti ''1'' = Inr ?event
      \<or> groupMembershipRemovedSubject = groupMembershipRemovedSubject \<and> e_unmarshal_removed demo_ziti ''1'' = Inr ?event"
    by (simp add: demo_ziti_def demo_with_def demo_def)
  have parse: "e_uuid_parse demo_ziti (me_member_id ?event) = Inr 1" by code_simp
  have z: "''z7'' \<in> ziti_ids 1 (db in_group_two)" by code_simp
  have ok: "schema_ok (db in_group_two)" "stored_ok (db in_group_two)" by (simp_all add: in_group_two_def one_device_ok)
  from membership_event_converges [OF demo_ziti_quiet ok demo_ziti_applies event _ parse _ _ run, of "''g2''"] z
  show ?thesis using run by (auto dest!: attrs)
qed

theorem reconciliation_reaches_all_witness:
  "\<exists>w'. ReconcileAllUserDeviceGroupRoles demo_ziti background in_group_two = Some (Inr (), w')
    \<and> snd (ext w') ''z7'' = {''group-g1'', ''group-g2''}"
proof -
  have "case ReconcileAllUserDeviceGroupRoles demo_ziti background in_group_two of Some (Inr u, w) \<Rightarrow> True | _ \<Rightarrow> False"
    by code_simp
  then obtain w' where run: "ReconcileAllUserDeviceGroupRoles demo_ziti background in_group_two = Some (Inr (), w')"
    by (auto split: option.splits prod.splits sum.splits)
  have "case userGroupRoleAttributes demo_ziti background 1 in_group_two of Some (Inr a, w) \<Rightarrow> a = [''group-g1''] | _ \<Rightarrow> False"
    by code_simp
  then have attrs: "attrs = [''group-g1'']"
    if "userGroupRoleAttributes demo_ziti background 1 in_group_two = Some (Inr attrs, v)" for attrs v
    using that by simp
  have ok: "schema_ok (db in_group_two)" "stored_ok (db in_group_two)" by (simp_all add: in_group_two_def one_device_ok)
  from reconciliation_reaches_all [OF demo_ziti_quiet ok demo_ziti_applies demo_ziti_steady run]
  have "snd (ext w') ''z7'' = {''group-g1'', ''group-g2''}"
    by (fastforce simp: one_device_def in_group_two_def dest: attrs [unfolded in_group_two_def one_device_def])
  then show ?thesis using run by blast
qed

end
