(* ===== verification/Message_Facts.thy ===== *)
theory Message_Facts
  imports Sync_Facts
begin

text \<open>
  What a run of membership messages does to the devices' attributes. NATS delivers a message at least once
  and in any order; while nobody joins or leaves a group, the attributes after a run of acknowledged
  messages have a closed form in the set of the messages alone.
\<close>

section \<open>The closed form\<close>

text \<open>Whose devices a message synchronises, with the candidates to remove; the other messages do nothing.\<close>

definition message_event :: "'x env \<Rightarrow> string \<times> string \<Rightarrow> go_err + membership_event" where
  "message_event E m =
    (if fst m = groupMembershipAddedSubject then e_unmarshal_added E (snd m)
     else if fst m = groupMembershipRemovedSubject then e_unmarshal_removed E (snd m)
     else Inl (External ''another subject''))"

definition message_target :: "'x env \<Rightarrow> string \<times> string \<Rightarrow> (uuid \<times> string list) option" where
  "message_target E m =
    (case message_event E m of
       Inl _ \<Rightarrow> None
     | Inr event \<Rightarrow>
        if me_member_type event \<noteq> MEMBER_TYPE_USER then None
        else (case e_uuid_parse E (me_member_id event) of
                Inl _ \<Rightarrow> None
              | Inr i \<Rightarrow> Some (i, if me_group_id event \<noteq> [] then [groupRoleAttribute (me_group_id event)] else [])))"

definition attributes_at :: "'x env \<Rightarrow> 'x world \<Rightarrow> uuid \<Rightarrow> string set" where
  "attributes_at E w i =
    (case userGroupRoleAttributes E background i w of Some (Inr attrs, _) \<Rightarrow> set attrs | _ \<Rightarrow> {})"

lemma attributes_at_run: "userGroupRoleAttributes E background i w = Some (Inr attrs, v) \<Longrightarrow> attributes_at E w i = set attrs"
  by (simp add: attributes_at_def)

lemma attributes_at_steady:
  assumes "groups_steady E gv" and "gv (ext u) = gv (ext w)"
  shows "attributes_at E u i = attributes_at E w i"
proof (cases "userGroupRoleAttributes E background i w")
  case None
  have "userGroupRoleAttributes E background i u = None"
  proof (cases "userGroupRoleAttributes E background i u")
    case (Some p)
    then obtain r v where "userGroupRoleAttributes E background i u = Some (r, v)" by (cases p) simp
    from agreesD [OF agrees_attributes [OF assms(1)] assms(2) [symmetric] this] None show ?thesis by auto
  qed
  with None show ?thesis by (simp add: attributes_at_def)
next
  case (Some p)
  then obtain r v where "userGroupRoleAttributes E background i w = Some (r, v)" by (cases p) simp
  moreover obtain v' where "userGroupRoleAttributes E background i u = Some (r, v')"
    using agrees_attributes [OF assms(1)] assms(2) calculation by (rule agreesD)
  ultimately show ?thesis by (simp add: attributes_at_def)
qed

text \<open>
  The attributes of an identity after the messages \<open>M\<close>: what its user should have, once any message was
  about the user, and of what it had whatever no message names.
\<close>

definition roles_after ::
  "'x env \<Rightarrow> database \<Rightarrow> (uuid \<Rightarrow> string set) \<Rightarrow> (string \<times> string) set \<Rightarrow> (string \<Rightarrow> string set) \<Rightarrow> string \<Rightarrow> string set" where
  "roles_after E d A M R z = {a. (\<exists>m \<in> M. \<exists>i cs. message_target E m = Some (i, cs) \<and> z \<in> ziti_ids i d \<and> a \<in> A i)
    \<or> a \<in> R z \<and> (\<forall>m \<in> M. \<forall>i cs. message_target E m = Some (i, cs) \<longrightarrow> z \<in> ziti_ids i d \<longrightarrow> a \<notin> set cs - {[]})}"

text \<open>One message, then the others: all messages at once. No identity is shared by devices of two users.\<close>

definition one_owner :: "database \<Rightarrow> bool" where
  "one_owner d \<longleftrightarrow> (\<forall>u \<in> set (user_devices d). \<forall>v \<in> set (user_devices d).
    d_openziti_identity_id u = d_openziti_identity_id v \<longrightarrow> d_identity_id u = d_identity_id v)"

lemma one_owner_ids: "one_owner d \<Longrightarrow> z \<in> ziti_ids i d \<Longrightarrow> z \<in> ziti_ids j d \<Longrightarrow> i = j"
  unfolding one_owner_def ziti_ids_def by blast

lemma roles_after_none:
  "message_target E m = None \<Longrightarrow> roles_after E d A (insert m M) R = roles_after E d A M R"
  by (simp add: roles_after_def fun_eq_iff)

lemma roles_after_insert:
  assumes "one_owner d" and m: "message_target E m = Some (i, cs)"
  shows "roles_after E d A M (patched (ziti_ids i d) (A i) (set cs - A i - {[]}) R) = roles_after E d A (insert m M) R"
proof (rule ext)
  fix z
  show "roles_after E d A M (patched (ziti_ids i d) (A i) (set cs - A i - {[]}) R) z = roles_after E d A (insert m M) R z"
  proof (cases "z \<in> ziti_ids i d")
    case False
    with m show ?thesis by (auto simp: roles_after_def patched_def)
  next
    case True
    have own: "message_target E n = Some (j, es) \<Longrightarrow> z \<in> ziti_ids j d \<Longrightarrow> j = i" for n j es
      using one_owner_ids [OF assms(1) True] by blast
    show ?thesis
    proof (intro set_eqI iffI)
      fix a
      assume "a \<in> roles_after E d A M (patched (ziti_ids i d) (A i) (set cs - A i - {[]}) R) z"
      then consider (want) n j es where "n \<in> M" "message_target E n = Some (j, es)" "z \<in> ziti_ids j d" "a \<in> A j"
        | (had) "a \<in> R z \<union> A i - (set cs - A i - {[]})"
            "\<forall>m \<in> M. \<forall>i cs. message_target E m = Some (i, cs) \<longrightarrow> z \<in> ziti_ids i d \<longrightarrow> a \<notin> set cs - {[]}"
        using True by (auto simp: roles_after_def patched_def)
      then show "a \<in> roles_after E d A (insert m M) R z"
        by cases (use m True in \<open>auto simp: roles_after_def\<close>)
    next
      fix a
      assume "a \<in> roles_after E d A (insert m M) R z"
      then consider (want) n j es where "n \<in> insert m M" "message_target E n = Some (j, es)" "z \<in> ziti_ids j d" "a \<in> A j"
        | (had) "a \<in> R z" "\<forall>n \<in> insert m M. \<forall>i cs. message_target E n = Some (i, cs) \<longrightarrow> z \<in> ziti_ids i d \<longrightarrow> a \<notin> set cs - {[]}"
        unfolding roles_after_def mem_Collect_eq by blast
      then show "a \<in> roles_after E d A M (patched (ziti_ids i d) (A i) (set cs - A i - {[]}) R) z"
      proof cases
        case (want n j es)
        then have Ai: "a \<in> A i" using own by blast
        show ?thesis
        proof (cases "\<exists>n \<in> M. \<exists>es. message_target E n = Some (i, es)")
          case True
          with Ai \<open>z \<in> ziti_ids i d\<close> show ?thesis by (auto simp: roles_after_def)
        next
          case False
          then have "\<forall>n \<in> M. \<forall>j es. message_target E n = Some (j, es) \<longrightarrow> z \<notin> ziti_ids j d" using own by blast
          with Ai True show ?thesis by (auto simp: roles_after_def patched_def)
        qed
      next
        case had
        then have "a \<notin> set cs - {[]}" using m True by simp
        with had True show ?thesis by (auto simp: roles_after_def patched_def)
      qed
    qed
  qed
qed

section \<open>Runs of messages\<close>

text \<open>\<open>acknowledged E ms w w'\<close>: the callback handles the messages one after the other and acknowledges each.\<close>

inductive acknowledged :: "'x env \<Rightarrow> (string \<times> string) list \<Rightarrow> 'x world \<Rightarrow> 'x world \<Rightarrow> bool" for E where
  none: "acknowledged E [] w w"
| more: "handle_message E subject data w = Some (Inr Ack, w1) \<Longrightarrow> acknowledged E ms w1 w'
    \<Longrightarrow> acknowledged E ((subject, data) # ms) w w'"

lemma handled_message:
  assumes "HandleGroupMembershipEvent E background subject data w = Some (Inr (), w')"
  shows "case message_target E (subject, data) of
      None \<Rightarrow> w' = w
    | Some (i, cs) \<Rightarrow> syncUserDeviceGroupRoles E background i cs w = Some (Inr (), w')"
proof (cases "message_event E (subject, data)")
  case (Inl err)
  then have "message_target E (subject, data) = None" by (simp add: message_target_def)
  with assms Inl show ?thesis
    by (auto simp: HandleGroupMembershipEvent_def message_event_def split: if_splits)
next
  case (Inr event)
  then have run: "handleUserMembershipChange E background (me_member_type event) (me_member_id event) (me_group_id event) w
      = Some (Inr (), w')"
    using assms by (auto simp: HandleGroupMembershipEvent_def message_event_def split: if_splits)
  show ?thesis
  proof (cases "me_member_type event \<noteq> MEMBER_TYPE_USER")
    case True
    with Inr run show ?thesis by (simp add: message_target_def handleUserMembershipChange_def)
  next
    case False
    with Inr run show ?thesis
      by (cases "e_uuid_parse E (me_member_id event)") (simp_all add: message_target_def handleUserMembershipChange_def)
  qed
qed

lemma acknowledged_step:
  assumes "quiet E" and "schema_ok (db w)" and "stored_ok (db w)" and "ziti_applies E roles" and "groups_steady E gv"
    and "handle_message E subject data w = Some (Inr Ack, w')"
  shows "db w' = db w \<and> gv (ext w') = gv (ext w)
    \<and> (case message_target E (subject, data) of
        None \<Rightarrow> roles (ext w') = roles (ext w)
      | Some (i, cs) \<Rightarrow> roles (ext w') = patched (ziti_ids i (db w)) (attributes_at E w i)
          (set cs - attributes_at E w i - {[]}) (roles (ext w)))"
proof -
  obtain w1 where "HandleGroupMembershipEvent E background subject data w = Some (Inr (), w1)"
    and w': "w' = w1\<lparr>ext := snd (e_msg_ack E subject data (ext w1))\<rparr>"
    using assms(6) by (rule acknowledged_message)
  note handled = handled_message [OF this(1)]
  have ack: "db w' = db w1" "gv (ext w') = gv (ext w1)" "roles (ext w') = roles (ext w1)"
    by (simp_all add: w' steady_answer [OF assms(5)] ziti_answers [OF assms(4)])
  show ?thesis
  proof (cases "message_target E (subject, data)")
    case None
    with handled ack show ?thesis by simp
  next
    case (Some p)
    then obtain i cs where target: "message_target E (subject, data) = Some (i, cs)" by (cases p) simp
    with handled have sync: "syncUserDeviceGroupRoles E background i cs w = Some (Inr (), w1)" by simp
    obtain attrs v where "userGroupRoleAttributes E background i w = Some (Inr attrs, v)"
        and "roles (ext w1) = patched (ziti_ids i (db w)) (set attrs) (set cs - set attrs - {[]}) (roles (ext w))"
        and "db w1 = db w"
      using sync_result [OF assms(1-4) sync] by (elim exE conjE)
    moreover have "gv (ext w1) = gv (ext w)" by (rule same_view [OF unchanged_sync [OF assms(5)] sync])
    ultimately show ?thesis using ack target by (simp add: attributes_at_run)
  qed
qed

lemma acknowledged_roles:
  assumes "quiet E" and "ziti_applies E roles" and "groups_steady E gv"
  shows "acknowledged E ms w w' \<Longrightarrow> schema_ok (db w) \<Longrightarrow> stored_ok (db w) \<Longrightarrow> one_owner (db w)
    \<Longrightarrow> db w' = db w \<and> roles (ext w') = roles_after E (db w) (attributes_at E w) (set ms) (roles (ext w))"
proof (induction rule: acknowledged.induct)
  case (none w)
  then show ?case by (simp add: roles_after_def)
next
  case (more subject data w w1 ms w')
  note step = acknowledged_step [OF assms(1) more.prems(1,2) assms(2,3) more.hyps(1)]
  then have d: "db w1 = db w" by blast
  have "attributes_at E w1 i = attributes_at E w i" for i
    by (rule attributes_at_steady [OF assms(3) conjunct1 [OF conjunct2 [OF step]]])
  then have A: "attributes_at E w1 = attributes_at E w" by (rule ext)
  have IH: "db w' = db w" "roles (ext w') = roles_after E (db w) (attributes_at E w) (set ms) (roles (ext w1))"
    using more.IH more.prems by (simp_all add: d A)
  show ?case
  proof (cases "message_target E (subject, data)")
    case None
    with IH step show ?thesis by (simp add: roles_after_none)
  next
    case (Some p)
    then obtain i cs where "message_target E (subject, data) = Some (i, cs)" by (cases p) simp
    with IH step roles_after_insert [OF more.prems(3) this] show ?thesis by simp
  qed
qed

text \<open>
  C33. The order and the number of deliveries do not matter: while nobody joins or leaves a group, two runs
  of membership messages from the same state that were acknowledged to the last leave every OpenZiti
  identity with the same attributes and the same tables, as soon as the same messages occur in them, in
  whatever order and however often. Assumed are that no other session writes, that OpenZiti applies the
  patches it accepts, and that no identity belongs to devices of two users.
\<close>

theorem membership_messages_converge:
  assumes "quiet E" and "schema_ok (db w)" and "stored_ok (db w)" and "one_owner (db w)"
    and "ziti_applies E roles" and "groups_steady E gv"
    and "acknowledged E ms w w1" and "acknowledged E ns w w2" and "set ms = set ns"
  shows "roles (ext w1) = roles (ext w2) \<and> db w1 = db w2"
  using acknowledged_roles [OF assms(1,5,6) assms(7) assms(2-4)] acknowledged_roles [OF assms(1,5,6) assms(8) assms(2-4)]
    assms(9) by simp

section \<open>Witness\<close>

text \<open>The same run as a function, to evaluate it.\<close>

fun deliver :: "'x env \<Rightarrow> (string \<times> string) list \<Rightarrow> 'x world \<Rightarrow> 'x world option" where
  "deliver E [] w = Some w"
| "deliver E ((subject, data) # ms) w =
    (case handle_message E subject data w of Some (Inr Ack, w') \<Rightarrow> deliver E ms w' | _ \<Rightarrow> None)"

lemma deliver_acknowledged: "deliver E ms w = Some w' \<Longrightarrow> acknowledged E ms w w'"
  by (induction E ms w rule: deliver.induct)
    (auto intro: acknowledged.intros split: option.splits prod.splits sum.splits answer.splits)

theorem membership_messages_converge_witness:
  "\<exists>w1 w2. acknowledged demo_ziti [(groupMembershipAddedSubject, ''1''), (groupMembershipRemovedSubject, ''1'')] in_group_two w1
    \<and> acknowledged demo_ziti [(groupMembershipRemovedSubject, ''1''), (groupMembershipAddedSubject, ''1''),
        (groupMembershipRemovedSubject, ''1'')] in_group_two w2
    \<and> snd (ext w1) = snd (ext w2)"
proof -
  let ?add = groupMembershipAddedSubject and ?remove = groupMembershipRemovedSubject
  have "case deliver demo_ziti [(?add, ''1''), (?remove, ''1'')] in_group_two of Some w \<Rightarrow> True | None \<Rightarrow> False"
    by code_simp
  then obtain w1 where ack1: "acknowledged demo_ziti [(?add, ''1''), (?remove, ''1'')] in_group_two w1"
    by (auto simp del: deliver.simps split: option.splits dest: deliver_acknowledged)
  have "case deliver demo_ziti [(?remove, ''1''), (?add, ''1''), (?remove, ''1'')] in_group_two of
      Some w \<Rightarrow> True | None \<Rightarrow> False"
    by code_simp
  then obtain w2 where ack2: "acknowledged demo_ziti [(?remove, ''1''), (?add, ''1''), (?remove, ''1'')] in_group_two w2"
    by (auto simp del: deliver.simps split: option.splits dest: deliver_acknowledged)
  have ok: "schema_ok (db in_group_two)" "stored_ok (db in_group_two)"
    by (simp_all add: in_group_two_def one_device_ok)
  have owner: "one_owner (db in_group_two)" by (simp add: in_group_two_def one_owner_def one_device_def)
  from membership_messages_converge [OF demo_ziti_quiet ok owner demo_ziti_applies demo_ziti_steady ack1 ack2] ack1 ack2
  show ?thesis by auto
qed

end
