(* ===== verification/User_Facts.thy ===== *)
theory User_Facts
  imports Access
begin

text \<open>
  What sign-in promises: whose record it returns, and that a repeated sign-in finds the same one; with the
  facts on the user statements and the candidate loop the other theories on users build on.
\<close>

section \<open>Sign-in\<close>

lemma scanUser_subject: "scanUser r = Inr u \<Longrightarrow> usr_OIDCSubject u = u_oidc_subject r"
  by (auto simp: scanUser_def)

lemma query_row_Inr:
  assumes "query_row E stmt scan w = Some (Inr x, w')"
  obtains s d r rows where "fst (stmt s d) = Inr (r # rows)" "scan r = Inr x" "db w' = snd (stmt s d)"
proof -
  obtain rows where run: "run_sql E stmt w = Some (Inr rows, w')"
      and scan: "(case rows of [] \<Rightarrow> Inl ErrNoRows | r # _ \<Rightarrow> scan r) = Inr x"
    using assms by (auto simp: query_row_def call_Inr_iff)
  obtain r rest where "rows = r # rest" "scan r = Inr x" using scan by (cases rows) auto
  moreover obtain s d where "fst (stmt s d) = Inr rows" "db w' = snd (stmt s d)"
    using run by (auto simp: run_sql_def Let_def split: prod.splits fault.splits)
  ultimately show thesis using that by blast
qed

lemma select_user_by_subject_Inr:
  "select_user_by_subject E s w = Some (Inr u, w') \<Longrightarrow> usr_OIDCSubject u = s"
  unfolding select_user_by_subject_def
  by (erule query_row_Inr) (auto simp: sql_select_users_def filter_eq_Cons_iff dest: scanUser_subject)

lemma insert_user_Inr:
  "insert_user E i input w = Some (Inr u, w') \<Longrightarrow> \<exists>s. scanUser (user_row_of s i input) = Inr u"
  unfolding insert_user_def
  by (erule query_row_Inr) (auto simp: sql_insert_user_def split: option.splits)

text \<open>The store's answer, in any environment.\<close>

lemma store_resolve_result:
  assumes "store_ResolveOrCreateUser E input w = Some (Inr (u, created), w')"
  shows "usr_OIDCSubject u = ui_OIDCSubject input
    \<and> (created \<longrightarrow> usr_Username u = ui_Username input \<and> usr_Name u = ui_Name input \<and> usr_Email u = ui_Email input
      \<and> usr_Nickname u = ui_Nickname input \<and> usr_PhotoURL u = ui_PhotoURL input)"
proof -
  have found: "usr_OIDCSubject u = ui_OIDCSubject input" if "select_user_by_subject E (ui_OIDCSubject input) v = Some (Inr u, v')"
    for v v' using that by (rule select_user_by_subject_Inr)
  have made: "usr_OIDCSubject u = ui_OIDCSubject input \<and> usr_Username u = ui_Username input
      \<and> usr_Name u = ui_Name input \<and> usr_Email u = ui_Email input
      \<and> usr_Nickname u = ui_Nickname input \<and> usr_PhotoURL u = ui_PhotoURL input"
    if "insert_user E i input v = Some (Inr u, v')" for i v v'
    using insert_user_Inr [OF that] by (auto simp: scanUser_def user_row_of_def)
  obtain r1 w1 where r1: "select_user_by_subject E (ui_OIDCSubject input) w = Some (r1, w1)"
    using assms by (auto simp: store_ResolveOrCreateUser_def attempt_Some_iff)
  show ?thesis
  proof (cases r1)
    case (Inr u')
    with assms r1 found show ?thesis by (simp add: store_ResolveOrCreateUser_def attempt_def)
  next
    case (Inl e)
    then obtain i w2 r2 w3 where r2: "insert_user E i input w2 = Some (r2, w3)"
      and rest: "(case r2 of Inr user \<Rightarrow> ret (user, True)
        | Inl err \<Rightarrow> (case as_pg_error err of None \<Rightarrow> fail err
           | Some (code, constraint) \<Rightarrow>
              if code = ''23505'' then
                if constraint = ''users_username_idx'' then fail (AlreadyExists ''username'')
                else if constraint = ''users_oidc_subject_idx'' then
                  attempt (select_user_by_subject E (ui_OIDCSubject input)) (\<lambda>again.
                  case again of Inl err \<Rightarrow> if is_no_rows err then fail (NotFound ''user'') else fail err
                  | Inr user \<Rightarrow> ret (user, False))
                else fail (AlreadyExists ''user'')
              else fail err)) w3 = Some (Inr (u, created), w')"
      using assms r1 by (auto simp: store_ResolveOrCreateUser_def attempt_Some_iff call_Inr_iff split: if_splits)
    show ?thesis
    proof (cases r2)
      case (Inr u')
      with rest made [of i w2 w3] r2 show ?thesis by simp
    next
      case (Inl e2)
      with rest found show ?thesis
        by (auto simp: attempt_def split: option.splits prod.splits if_splits sum.splits)
    qed
  qed
qed

text \<open>What the loop over the candidates returned came from the store, with a valid name.\<close>

lemma try_usernames_Inr:
  "try_usernames E create iter w = Some (Inr x, w') \<Longrightarrow> validateUsername (base iter) = Inr ()
    \<Longrightarrow> \<exists>name w1. validateUsername name = Inr () \<and> create name w1 = Some (Inr x, w')"
proof (induction "candidates_left iter" arbitrary: iter w rule: less_induct)
  case less
  have valid: "validateUsername name = Inr () \<and> base iter' = base iter \<and> candidates_left iter' < candidates_left iter"
    if "next_candidate (random_suffix (\<lambda>n. ext_call (e_rand_int E n))) iter w = Some (Inr (Some name, iter'), w1)"
    for name iter' w1
    using next_candidate_step [OF that] next_candidate_chars [OF less.prems(2) random_suffix_source that] by auto
  from less.prems(1) show ?case
  proof (cases rule: try_usernames_cases)
    case (found name iter' w1 y)
    then have "validateUsername name = Inr ()" and "create name w1 = Some (Inr x, w')"
      using valid [OF found(1)] by simp_all
    then show ?thesis by blast
  next
    case (taken name iter' w1 err w2)
    then show ?thesis using less.hyps [of iter' w2] valid [OF taken(1)] less.prems(2) by simp
  qed simp_all
qed

lemma register_resolved_Inr:
  "register_resolved E c u created w = Some (Inr (p, b), w') \<Longrightarrow> p = toProtoUser E u \<and> b = created"
  by (auto simp: register_resolved_def attempt_def split: option.splits sum.splits if_splits)

text \<open>
  C16. Sign-in never returns somebody else: whatever races with it and whatever fails on the way, the user
  it returns has the subject that signed in; and a user it reports as created has a valid user name, the
  name, the email and the photo of the request, and no nickname.
\<close>

theorem sign_in_result:
  assumes "ResolveOrCreateUser E c req w = Some (Inr (p, created), w')"
  shows "pu_OidcSubject p = rcu_OidcSubject req
    \<and> (created \<longrightarrow> validateUsername (pu_Username p) = Inr () \<and> pu_Name p = rcu_Name req \<and> pu_Email p = rcu_Email req
      \<and> pu_PhotoUrl p = rcu_PhotoUrl req \<and> pu_Nickname p = [])"
proof -
  let ?input = "\<lambda>candidate. \<lparr>ui_OIDCSubject = rcu_OidcSubject req, ui_Name = rcu_Name req, ui_Email = rcu_Email req,
    ui_Nickname = [], ui_Username = candidate, ui_PhotoURL = rcu_PhotoUrl req\<rparr>"
  let ?iter = "newUsernameCandidateIterator
    (deriveUsernameBase (rcu_PreferredUsername req) (rcu_Email req) (rcu_Name req) (rcu_OidcSubject req))"
  obtain u b w1 where names: "try_usernames E (\<lambda>n. store_ResolveOrCreateUser E (?input n)) ?iter w = Some (Inr (u, b), w1)"
      and reg: "register_resolved E c u b w1 = Some (Inr (p, created), w')"
    using assms by (auto simp: ResolveOrCreateUser_def Let_def call_Inr_iff split: if_splits)
  have "validateUsername (base ?iter) = Inr ()"
    by (simp add: newUsernameCandidateIterator_def derived_base_valid)
  then obtain name w0 where "validateUsername name = Inr ()"
      and "store_ResolveOrCreateUser E (?input name) w0 = Some (Inr (u, b), w1)"
    using try_usernames_Inr [OF names] by blast
  then show ?thesis
    using store_resolve_result register_resolved_Inr [OF reg] by (fastforce simp: toProtoUser_def)
qed

section \<open>Sign-in when nobody else writes\<close>

lemma quiet_select_subject:
  assumes "quiet E"
  shows "\<exists>w1. select_user_by_subject E s w =
      Some (case filter (\<lambda>r. u_oidc_subject r = s) (users (db w)) of [] \<Rightarrow> Inl ErrNoRows | r # _ \<Rightarrow> scanUser r, w1)
    \<and> db w1 = db w"
  by (rule exI [of _ "after_sql E (\<lambda>sn. sql_select_users (\<lambda>r. u_oidc_subject r = s)) w"])
    (simp add: select_user_by_subject_def quiet_query_row [OF assms] sql_select_users_def)

lemma quiet_insert_user:
  assumes "quiet E"
  shows "\<exists>w1 sn. insert_user E i input w =
      Some (case user_conflict (users (db w)) (user_row_of sn i input) of
              Some k \<Rightarrow> Inl (PgError unique_violation k)
            | None \<Rightarrow> scanUser (user_row_of sn i input), w1)
    \<and> db w1 = (case user_conflict (users (db w)) (user_row_of sn i input) of
              Some k \<Rightarrow> db w
            | None \<Rightarrow> db w\<lparr>users := users (db w) @ [user_row_of sn i input]\<rparr>)"
  by (rule exI [of _ "after_sql E (\<lambda>s. sql_insert_user (user_row_of s i input)) w"], rule exI [of _ "session_of E w"])
    (simp add: insert_user_def quiet_query_row [OF assms] sql_insert_user_def split: option.split)

text \<open>The tables after the store's answer: as before, or with the one new row.\<close>

lemma quiet_resolve:
  assumes "quiet E" and "store_ResolveOrCreateUser E input w = Some (r, w')"
  obtains (error) e where "r = Inl e" "db w' = db w"
    | (found) row rows where "r = Inr (projr (scanUser row), False)" "db w' = db w"
        "filter (\<lambda>r. u_oidc_subject r = ui_OIDCSubject input) (users (db w)) = row # rows"
    | (created) sn i where "r = Inr (projr (scanUser (user_row_of sn i input)), True)"
        "user_conflict (users (db w)) (user_row_of sn i input) = None"
        "db w' = db w\<lparr>users := users (db w) @ [user_row_of sn i input]\<rparr>"
        "filter (\<lambda>r. u_oidc_subject r = ui_OIDCSubject input) (users (db w)) = []"
proof -
  obtain w1 where sel: "select_user_by_subject E (ui_OIDCSubject input) w =
      Some (case filter (\<lambda>r. u_oidc_subject r = ui_OIDCSubject input) (users (db w)) of
        [] \<Rightarrow> Inl ErrNoRows | r # _ \<Rightarrow> scanUser r, w1)" and w1: "db w1 = db w"
    using quiet_select_subject [OF assms(1)] by blast
  let ?rows = "filter (\<lambda>r. u_oidc_subject r = ui_OIDCSubject input) (users (db w))"
  show thesis
  proof (cases ?rows)
    case (Cons row rows)
    with sel assms(2) w1 show thesis
      by (intro found [of row rows]) (auto simp: store_ResolveOrCreateUser_def attempt_def scanUser_def)
  next
    case Nil
    define i where "i = fst (e_uuid_new E (ext w1))"
    define w2 where "w2 = w1\<lparr>ext := snd (e_uuid_new E (ext w1))\<rparr>"
    obtain w3 sn where ins: "insert_user E i input w2 =
        Some (case user_conflict (users (db w2)) (user_row_of sn i input) of
                Some k \<Rightarrow> Inl (PgError unique_violation k) | None \<Rightarrow> scanUser (user_row_of sn i input), w3)"
      and w3: "db w3 = (case user_conflict (users (db w2)) (user_row_of sn i input) of
                Some k \<Rightarrow> db w2 | None \<Rightarrow> db w2\<lparr>users := users (db w2) @ [user_row_of sn i input]\<rparr>)"
      using quiet_insert_user [OF assms(1)] by blast
    have w2: "db w2 = db w" by (simp add: w2_def w1)
    have new: "call (ext_value (e_uuid_new E)) id k w1 = k i w2" for k :: "uuid \<Rightarrow> ('a world, user \<times> bool) go"
      by (simp add: call_def attempt_def ext_value_run i_def w2_def)
    show thesis
    proof (cases "user_conflict (users (db w)) (user_row_of sn i input)")
      case None
      with Nil sel ins w3 new assms(2) w2 show thesis
        by (intro created [of sn i]) (auto simp: store_ResolveOrCreateUser_def attempt_def scanUser_def)
    next
      case (Some k)
      have w3': "db w3 = db w" using w3 w2 Some by simp
      obtain w4 where again: "select_user_by_subject E (ui_OIDCSubject input) w3 = Some (Inl ErrNoRows, w4)"
          and w4: "db w4 = db w"
        using quiet_select_subject [OF assms(1), of "ui_OIDCSubject input" w3] Nil unfolding w3' by auto
      have ins': "insert_user E i input w2 = Some (Inl (PgError unique_violation k), w3)"
        using ins w2 Some by simp
      have sel': "select_user_by_subject E (ui_OIDCSubject input) w = Some (Inl ErrNoRows, w1)"
        using sel Nil by simp
      have "\<exists>e. r = Inl e \<and> db w' = db w"
        using assms(2) w3' w4
        by (simp add: store_ResolveOrCreateUser_def attempt_def sel' new ins' again unique_violation_def split: if_splits)
          auto
      then show thesis using error by blast
    qed
  qed
qed

lemma next_candidate_same:
  "next_candidate (random_suffix (\<lambda>n. ext_call (e_rand_int E n))) iter v = Some (x, v') \<Longrightarrow> db v' = db v"
  using within_next_candidate [OF same.state_preorder_axioms, of "\<lambda>n. ext_call (e_rand_int E n)" iter, OF same_ext_call]
  by (simp add: within_def tables_same_def)

lemma try_usernames_quiet:
  assumes fails: "\<And>name w e w'. create name w = Some (Inl e, w') \<Longrightarrow> db w' = db w"
  shows "try_usernames E create iter w = Some (r, w') \<Longrightarrow>
    (case r of Inl e \<Rightarrow> db w' = db w | Inr x \<Rightarrow> \<exists>name w1. create name w1 = Some (Inr x, w') \<and> db w1 = db w)"
proof (induction "candidates_left iter" arbitrary: iter w rule: less_induct)
  case less
  note same = next_candidate_same [of E iter]
  from less.prems show ?case
  proof (cases rule: try_usernames_cases)
    case (found name iter' w1 x)
    then have "create name w1 = Some (Inr x, w') \<and> db w1 = db w" using same [OF found(1)] by simp
    with found(3) show ?thesis by auto
  next
    case (taken name iter' w1 err w2)
    have "db w2 = db w" using same [OF taken(1)] fails [OF taken(2)] by simp
    moreover have "candidates_left iter' < candidates_left iter" using next_candidate_step(3) [OF taken(1)] by simp
    ultimately show ?thesis using less.hyps [of iter' w2] taken(4) by (cases r) auto
  next
    case (failed name iter' w1 err)
    then show ?thesis using same [OF failed(1)] fails [OF failed(2)] by simp
  qed (auto dest: same)
qed

lemma try_usernames_quiet_valid:
  assumes fails: "\<And>name w e w'. create name w = Some (Inl e, w') \<Longrightarrow> db w' = db w"
  shows "try_usernames E create iter w = Some (Inr x, w') \<Longrightarrow> validateUsername (base iter) = Inr () \<Longrightarrow>
    \<exists>name w1. validateUsername name = Inr () \<and> create name w1 = Some (Inr x, w') \<and> db w1 = db w"
proof (induction "candidates_left iter" arbitrary: iter w rule: less_induct)
  case less
  note same = next_candidate_same [of E iter]
  from less.prems(1) show ?case
  proof (cases rule: try_usernames_cases)
    case (found name iter' w1 y)
    then show ?thesis
      using same [OF found(1)] next_candidate_chars [OF less.prems(2) random_suffix_source found(1)] by auto
  next
    case (taken name iter' w1 err w2)
    have "db w2 = db w" using same [OF taken(1)] fails [OF taken(2)] by simp
    moreover have "candidates_left iter' < candidates_left iter" and "base iter' = base iter"
      using next_candidate_step [OF taken(1)] by simp_all
    ultimately show ?thesis using less.hyps [of iter' w2] taken(4) less.prems(2) by simp
  qed simp_all
qed

lemma first_candidate:
  "try_usernames E create (newUsernameCandidateIterator b) w =
    attempt (create b) (\<lambda>r. case r of
      Inr x \<Rightarrow> ret x
    | Inl err \<Rightarrow>
        if isAlreadyExists err ''username''
        then try_usernames E create ((newUsernameCandidateIterator b)\<lparr>nextIndex := 1\<rparr>)
        else fail (toStatusError err)) w"
  by (subst try_usernames_run)
    (simp add: next_candidate_def newUsernameCandidateIterator_def call_def attempt_def
      split: option.split sum.split)

text \<open>The sign-in input, as the handler builds it.\<close>

definition sign_in_input :: "resolve_or_create_user_request \<Rightarrow> string \<Rightarrow> user_input" where
  "sign_in_input req candidate =
    \<lparr>ui_OIDCSubject = rcu_OidcSubject req, ui_Name = rcu_Name req, ui_Email = rcu_Email req, ui_Nickname = [],
     ui_Username = candidate, ui_PhotoURL = rcu_PhotoUrl req\<rparr>"

lemma sign_in_input_subject: "ui_OIDCSubject (sign_in_input req n) = rcu_OidcSubject req"
  by (simp add: sign_in_input_def)

text \<open>The loop of sign-in, when nobody else writes: the tables stay, or get the one row of the answer.\<close>

lemma quiet_sign_in_loop:
  assumes "quiet E"
    and "try_usernames E (\<lambda>n. store_ResolveOrCreateUser E (sign_in_input req n)) iter w = Some (r, w')"
  obtains (error) e where "r = Inl e" "db w' = db w"
    | (found) row rows where "r = Inr (projr (scanUser row), False)" "db w' = db w"
        "filter (\<lambda>r. u_oidc_subject r = rcu_OidcSubject req) (users (db w)) = row # rows"
    | (created) sn i n where "r = Inr (projr (scanUser (user_row_of sn i (sign_in_input req n))), True)"
        "user_conflict (users (db w)) (user_row_of sn i (sign_in_input req n)) = None"
        "db w' = db w\<lparr>users := users (db w) @ [user_row_of sn i (sign_in_input req n)]\<rparr>"
        "filter (\<lambda>r. u_oidc_subject r = rcu_OidcSubject req) (users (db w)) = []"
proof -
  have fails: "db v' = db v" if "store_ResolveOrCreateUser E (sign_in_input req n) v = Some (Inl e, v')" for n v e v'
    using assms(1) that by (cases rule: quiet_resolve) auto
  have loop: "case r of Inl e \<Rightarrow> db w' = db w
      | Inr x \<Rightarrow> \<exists>n w1. store_ResolveOrCreateUser E (sign_in_input req n) w1 = Some (Inr x, w') \<and> db w1 = db w"
    by (rule try_usernames_quiet [OF _ assms(2)]) (rule fails)
  show thesis
  proof (cases r)
    case (Inl e)
    with loop error show thesis by simp
  next
    case (Inr x)
    with loop obtain n w1 where run: "store_ResolveOrCreateUser E (sign_in_input req n) w1 = Some (Inr x, w')" and w1: "db w1 = db w"
      by auto
    from assms(1) run show thesis
    proof (cases rule: quiet_resolve)
      case (found row rows)
      then show thesis using that(2) Inr w1 sign_in_input_subject by auto
    next
      case (created sn i)
      then show thesis using that(3) Inr w1 sign_in_input_subject by auto
    qed simp
  qed
qed

lemma register_resolved_old:
  "\<exists>w'. register_resolved E c u False w = Some (Inr (toProtoUser E u, False), w') \<and> db w' = db w"
  by (simp add: register_resolved_def attempt_def ext_call_run split: sum.split)

lemma user_row_of_fields [simp]:
  "u_oidc_subject (user_row_of s i input) = ui_OIDCSubject input" "u_identity_id (user_row_of s i input) = i"
  by (simp_all add: user_row_of_def)

lemma sign_in_unfold:
  "rcu_OidcSubject req \<noteq> [] \<Longrightarrow> ResolveOrCreateUser E c req =
    call (try_usernames E (\<lambda>n. store_ResolveOrCreateUser E (sign_in_input req n))
      (newUsernameCandidateIterator
        (deriveUsernameBase (rcu_PreferredUsername req) (rcu_Email req) (rcu_Name req) (rcu_OidcSubject req)))) id
      (\<lambda>(u, created). register_resolved E c u created)"
  by (simp add: ResolveOrCreateUser_def Let_def sign_in_input_def)

lemma undo_insert:
  assumes "schema_ok d" and "user_conflict (users d) r = None"
  shows "snd (sql_delete_user (u_identity_id r) (d\<lparr>users := users d @ [r]\<rparr>)) = d"
proof -
  let ?i = "u_identity_id r"
  have i: "?i \<notin> user_ids d"
    using assms(2) by (auto simp: user_conflict_def user_ids_def split: if_splits)
  have "filter (\<lambda>x. u_identity_id x \<noteq> ?i) (users d) = users d"
    using i by (simp add: filter_id_conv user_ids_def) (metis imageI)
  moreover have "filter (\<lambda>t. t_identity_id t \<noteq> ?i) (user_api_tokens d) = user_api_tokens d"
    and "filter (\<lambda>v. d_identity_id v \<noteq> ?i) (user_devices d) = user_devices d"
    using assms(1) i by (auto simp: filter_id_conv schema_ok_def tokens_ok_def devices_ok_def)
  ultimately show ?thesis by (simp add: sql_delete_user_def Let_def)
qed

lemma quiet_delete:
  assumes "quiet E"
  shows "\<exists>w'. store_DeleteUser E i w = Some (if i \<in> user_ids (db w) then Inr () else Inl (NotFound ''user''), w')
    \<and> db w' = snd (sql_delete_user i (db w))"
proof -
  have "(length (filter (\<lambda>r. u_identity_id r = i) (users (db w))) = 0) = (i \<notin> user_ids (db w))"
    by (auto simp: user_ids_def filter_empty_conv)
  then show ?thesis
    by (simp add: store_DeleteUser_def call_def attempt_def quiet_run [OF assms] sql_delete_user_def Let_def)
qed

text \<open>
  C17. Signing in twice is signing in once: when nobody else writes, a second sign-in with the same subject,
  whatever else the identity provider now says of the person, returns exactly the user of the first,
  reports nothing created and leaves the tables as they are.
\<close>

theorem sign_in_again:
  assumes "quiet E" and "ResolveOrCreateUser E c req w = Some (Inr (p, created), w')"
    and "rcu_OidcSubject req' = rcu_OidcSubject req"
  shows "\<exists>w''. ResolveOrCreateUser E c' req' w' = Some (Inr (p, False), w'') \<and> db w'' = db w'"
proof -
  let ?s = "rcu_OidcSubject req"
  have s: "?s \<noteq> []" using assms(2) by (auto simp: ResolveOrCreateUser_def)
  obtain u w1 where loop: "try_usernames E (\<lambda>n. store_ResolveOrCreateUser E (sign_in_input req n))
      (newUsernameCandidateIterator
        (deriveUsernameBase (rcu_PreferredUsername req) (rcu_Email req) (rcu_Name req) ?s)) w = Some (Inr (u, created), w1)"
    and reg: "register_resolved E c u created w1 = Some (Inr (p, created), w')"
    using assms(2) unfolding sign_in_unfold [OF s] by (auto simp: call_Inr_iff dest: register_resolved_Inr)
  have w1: "db w' = db w1"
    using reg by (auto simp: register_resolved_def attempt_def ext_call_run split: option.splits sum.splits if_splits)
  have p: "p = toProtoUser E u" using register_resolved_Inr [OF reg] by simp
  have "\<exists>row rows. filter (\<lambda>r. u_oidc_subject r = ?s) (users (db w1)) = row # rows \<and> u = projr (scanUser row)"
    using assms(1) loop
  proof (cases rule: quiet_sign_in_loop)
    case (created sn i n)
    then show ?thesis by (simp add: sign_in_input_subject)
  qed simp_all
  then obtain row rows where row: "filter (\<lambda>r. u_oidc_subject r = ?s) (users (db w')) = row # rows"
      and u: "u = projr (scanUser row)"
    unfolding w1 by blast
  let ?b = "deriveUsernameBase (rcu_PreferredUsername req') (rcu_Email req') (rcu_Name req') (rcu_OidcSubject req')"
  obtain w2 where sel: "select_user_by_subject E ?s w' = Some (scanUser row, w2)" and w2: "db w2 = db w'"
    using quiet_select_subject [OF assms(1), of ?s w'] row by auto
  have "store_ResolveOrCreateUser E (sign_in_input req' ?b) w' = Some (Inr (u, False), w2)"
    using sel u assms(3) by (simp add: store_ResolveOrCreateUser_def attempt_def sign_in_input_def scanUser_def)
  then have "ResolveOrCreateUser E c' req' w' = register_resolved E c' u False w2"
    using s assms(3) by (simp add: sign_in_unfold call_def attempt_def first_candidate)
  then show ?thesis using register_resolved_old [of E c' u w2] w2 p by auto
qed

section \<open>Witnesses for sign-in\<close>

definition demo_sign_in :: resolve_or_create_user_request where
  "demo_sign_in = \<lparr>rcu_OidcSubject = ''sub'', rcu_PreferredUsername = ''bob'', rcu_Email = [], rcu_Name = ''Bob'',
    rcu_PhotoUrl = ''photo''\<rparr>"

lemma demo_sign_in_run:
  obtains p w' where "ResolveOrCreateUser demo background demo_sign_in fresh = Some (Inr (p, True), w')"
    and "pu_Username p = ''bob''"
proof -
  have "case ResolveOrCreateUser demo background demo_sign_in fresh of
      Some (Inr (p, c), w) \<Rightarrow> c \<and> pu_Username p = ''bob'' | _ \<Rightarrow> False"
    by code_simp
  then show thesis using that by (auto split: option.splits prod.splits sum.splits)
qed

theorem sign_in_result_witness:
  "\<exists>p w'. ResolveOrCreateUser demo background demo_sign_in fresh = Some (Inr (p, True), w')
    \<and> pu_OidcSubject p = ''sub'' \<and> pu_Name p = ''Bob'' \<and> pu_PhotoUrl p = ''photo''"
proof -
  obtain p w' where run: "ResolveOrCreateUser demo background demo_sign_in fresh = Some (Inr (p, True), w')"
    by (rule demo_sign_in_run)
  from sign_in_result [OF run] run show ?thesis by (auto simp: demo_sign_in_def)
qed

theorem sign_in_again_witness:
  "\<exists>p w' w''. ResolveOrCreateUser demo background demo_sign_in fresh = Some (Inr (p, True), w')
    \<and> ResolveOrCreateUser demo background demo_sign_in w' = Some (Inr (p, False), w'') \<and> db w'' = db w'"
proof -
  obtain p w' where run: "ResolveOrCreateUser demo background demo_sign_in fresh = Some (Inr (p, True), w')"
    by (rule demo_sign_in_run)
  from sign_in_again [OF demo_quiet run refl, of background] run show ?thesis by blast
qed

lemma same_auth:
  "within tables_same (requireClusterAdmin E c)" "within tables_same (syncClusterRole E c i role)"
  "within tables_same (resolveClusterRole E c i)"
  unfolding checkClusterAdmin_def requireClusterAdmin_def resolveClusterRole_def syncClusterRole_def
  by (intro same.within_rules same_ext_call)+

end
