(* ===== verification/User_Changes.thy ===== *)
theory User_Changes
  imports User_Facts
begin

text \<open>
  What an update changes, what a deletion removes, which entries a search finds and what the pages of a
  listing hold, each when nobody else writes.
\<close>

section \<open>Updates\<close>

lemma quiet_update:
  assumes "quiet E" and "store_UpdateUser E i update w = Some (Inr u, w')"
  shows "i \<in> user_ids (db w)
    \<and> db w' = db w\<lparr>users := map (\<lambda>r. if u_identity_id r = i then apply_user_update update (s_now (session_of E w)) r else r) (users (db w))\<rparr>
    \<and> meta_ID (usr_Meta u) = i"
proof -
  let ?now = "s_now (session_of E w)"
  let ?stmt = "sql_update_user (apply_user_update update ?now) i (db w)"
  let ?run = "\<lambda>s. exec_update_users (builder_build (user_update_builder update) ''users'' userColumns ''identity_id'' i) (s_now s)"
  have stmt: "?run (session_of E w) (db w) = ?stmt" by (rule update_exec)
  have "query_row E ?run scanUser w = Some (Inr u, w')"
    using assms(2) by (simp add: store_UpdateUser_def Let_def call_Inr_iff split: if_splits)
  then have run: "(case fst ?stmt of Inl e \<Rightarrow> Inl e | Inr rows \<Rightarrow> (case rows of [] \<Rightarrow> Inl ErrNoRows | r # _ \<Rightarrow> scanUser r)) = Inr u"
    and "after_sql E ?run w = w'"
    unfolding quiet_query_row [OF assms(1)] stmt option.inject prod.inject by (rule conjunct1, rule conjunct2)
  then have w': "db w' = snd ?stmt"
    using after_sql_db [of E ?run w] unfolding stmt by simp
  obtain r rs where r: "filter (\<lambda>r. u_identity_id r = i) (users (db w)) = r # rs"
    using run by (cases "filter (\<lambda>r. u_identity_id r = i) (users (db w))") (auto simp: sql_update_user_def)
  then have "u_identity_id r = i" "r \<in> set (users (db w))"
    by (auto simp: filter_eq_Cons_iff)
  then have mem: "i \<in> user_ids (db w)" by (auto simp: user_ids_def)
  have keep: "u_identity_id (apply_user_update update now row) = u_identity_id row" for now row
    by (simp add: apply_user_update_def)
  have stored: "scanUser (apply_user_update update ?now r) = Inr u" and "db w' = db w\<lparr>users := map (\<lambda>r. if u_identity_id r = i
      then apply_user_update update ?now r else r) (users (db w))\<rparr>"
    using run w' r
    by (simp_all add: sql_update_user_def split: option.splits)
  moreover have "meta_ID (usr_Meta u) = i"
    using stored keep \<open>u_identity_id r = i\<close> by (auto simp: scanUser_def)
  ultimately show ?thesis using mem by simp
qed

text \<open>
  C20. A user who updates their own profile changes exactly their own row, and of it the name and the user
  name only, and the time of the update: no other user, token or device changes, and the new user name is
  a valid one.
\<close>

theorem update_me_frame:
  assumes "quiet E" and "UpdateMe E c req w = Some (Inr (p, role), w')"
  shows "\<exists>i now. identityIDFromContext E c = Inr i \<and> i \<in> user_ids (db w)
    \<and> (\<forall>n. umr_Username req = Some n \<longrightarrow> validateUsername n = Inr ())
    \<and> db w' = db w\<lparr>users := map (\<lambda>r. if u_identity_id r = i then
        r\<lparr>u_name := case_option (u_name r) id (umr_Name req),
          u_username := case_option (u_username r) Some (umr_Username req), u_updated_at := now\<rparr> else r) (users (db w))\<rparr>"
proof -
  let ?update = "\<lparr>uu_Name = umr_Name req, uu_Email = None, uu_Nickname = None, uu_Username = umr_Username req,
    uu_PhotoURL = None\<rparr>"
  obtain i u w1 where i: "identityIDFromContext E c = Inr i"
      and valid: "\<forall>n. umr_Username req = Some n \<longrightarrow> validateUsername n = Inr ()"
      and upd: "store_UpdateUser E i ?update w = Some (Inr u, w1)"
      and role: "resolveClusterRole E c i w1 = Some (Inr role, w')"
    using assms(2) by (auto simp: UpdateMe_def caller_def call_Inr_iff split: if_splits option.splits sum.splits)
  let ?now = "s_now (session_of E w)"
  have only: "apply_user_update ?update ?now r = r\<lparr>u_name := case_option (u_name r) id (umr_Name req),
      u_username := case_option (u_username r) Some (umr_Username req), u_updated_at := ?now\<rparr>" for r
    by (simp add: apply_user_update_def split: option.split)
  have "i \<in> user_ids (db w)" and w1: "db w1 = db w\<lparr>users := map (\<lambda>r. if u_identity_id r = i then
      apply_user_update ?update ?now r else r) (users (db w))\<rparr>"
    using quiet_update [OF assms(1) upd] by simp_all
  moreover have "db w' = db w1" by (rule same_db [OF same_auth(3) role])
  ultimately show ?thesis
    using i valid by (intro exI [of _ i] exI [of _ ?now]) (simp add: only)
qed

definition signed_in :: "nat world" where
  "signed_in = \<lparr>db = \<lparr>users = [\<lparr>u_identity_id = 1, u_oidc_subject = ''sub'', u_name = ''Bob'', u_email = [], u_nickname = [],
      u_username = Some ''bob'', u_photo_url = [], u_created_at = 3, u_updated_at = 3\<rparr>],
    user_api_tokens = [], user_devices = []\<rparr>, ext = 5\<rparr>"

theorem update_me_frame_witness:
  "\<exists>p role w'. UpdateMe demo (as_user ''1'') \<lparr>umr_Name = Some ''Robert'', umr_Username = None\<rparr> signed_in = Some (Inr (p, role), w')
    \<and> map u_name (users (db w')) = [''Robert''] \<and> map u_username (users (db w')) = [Some ''bob'']"
proof -
  let ?req = "\<lparr>umr_Name = Some ''Robert'', umr_Username = None\<rparr>"
  have "case UpdateMe demo (as_user ''1'') ?req signed_in of Some (Inr r, w) \<Rightarrow> True | _ \<Rightarrow> False"
    by code_simp
  then obtain p role w' where run: "UpdateMe demo (as_user ''1'') ?req signed_in = Some (Inr (p, role), w')"
    by (auto split: option.splits prod.splits sum.splits)
  obtain now where "db w' = db signed_in\<lparr>users := map (\<lambda>r. if u_identity_id r = 1 then
        r\<lparr>u_name := ''Robert'', u_username := u_username r, u_updated_at := now\<rparr> else r) (users (db signed_in))\<rparr>"
    using update_me_frame [OF demo_quiet run]
    by (auto simp: identityIDFromContext_def as_user_def signed_in_def user_ids_def)
  with run show ?thesis by (simp add: signed_in_def)
qed

section \<open>Deletion\<close>

lemma run_sql_other: "run_sql (E\<lparr>e_delete_device_identity := f\<rparr>) stmt = run_sql E stmt"
  by (simp add: run_sql_def fun_eq_iff)

lemma parse_uuid_Inr: "parseUUID E s = Inr i \<Longrightarrow> e_uuid_parse E s = Inr i"
  by (auto simp: parseUUID_def split: if_splits sum.splits)

text \<open>
  C21. A deletion that succeeds has removed the user, every API token and every device of theirs, and
  nothing else.
\<close>

theorem delete_user_complete:
  assumes "quiet E" and "DeleteUser E c s w = Some (Inr (), w')"
  shows "\<exists>i. e_uuid_parse E s = Inr i \<and> i \<in> user_ids (db w)
    \<and> db w' = \<lparr>users = filter (\<lambda>r. u_identity_id r \<noteq> i) (users (db w)),
               user_api_tokens = filter (\<lambda>t. t_identity_id t \<noteq> i) (user_api_tokens (db w)),
               user_devices = filter (\<lambda>v. d_identity_id v \<noteq> i) (user_devices (db w))\<rparr>"
proof -
  obtain i w1 where i: "parseUUID E s = Inr i" and w1: "db w1 = db w"
      and del: "store_DeleteUser E i w1 = Some (Inr (), w')"
  proof -
    from assms(2) have "\<exists>i w1. parseUUID E s = Inr i \<and> db w1 = db w \<and> store_DeleteUser E i w1 = Some (Inr (), w')"
      unfolding DeleteUser_def Let_def
    proof (elim callE, goal_cases)
      case (1 _ w0 i w1 _ w2 objects w3 _ w4 _ w5)
      then have "db w4 = db w3" by (auto simp: ext_call_run split: if_splits)
      moreover have "db w3 = db w2" using 1 by (auto simp: ext_call_run)
      moreover have "db w2 = db w1" using same_db [OF same_auth(2)] 1 by blast
      moreover have "db w0 = db w" using same_db [OF same_auth(1)] 1 by blast
      ultimately show ?case using 1 by (intro exI [of _ i] exI [of _ w4]) auto
    qed
    then show thesis using that by blast
  qed
  obtain q w3 where "store_DeleteUser E i w1 = Some (if i \<in> user_ids (db w1) then Inr () else Inl (NotFound ''user''), w3)"
      and w3: "db w3 = snd (sql_delete_user i (db w1))"
    using quiet_delete [OF assms(1)] by blast
  then have mem: "i \<in> user_ids (db w)" and "w' = w3" using del w1 by (auto split: if_splits)
  moreover have "length (filter (\<lambda>r. u_identity_id r = i) (users (db w))) \<noteq> 0"
    using mem by (auto simp: user_ids_def filter_empty_conv)
  ultimately show ?thesis
    using w3 w1 parse_uuid_Inr [OF i] by (auto simp: sql_delete_user_def Let_def)
qed

theorem delete_user_complete_witness:
  "\<exists>w'. DeleteUser demo (as_user ''1'') ''1'' signed_in = Some (Inr (), w') \<and> db w' = empty_database"
proof -
  have "case DeleteUser demo (as_user ''1'') ''1'' signed_in of Some (Inr r, w) \<Rightarrow> True | _ \<Rightarrow> False"
    by code_simp
  then obtain w' where run: "DeleteUser demo (as_user ''1'') ''1'' signed_in = Some (Inr (), w')"
    by (auto split: option.splits prod.splits sum.splits)
  obtain i where "i \<in> user_ids (db signed_in)" and "db w' =
      \<lparr>users = filter (\<lambda>r. u_identity_id r \<noteq> i) (users (db signed_in)),
       user_api_tokens = filter (\<lambda>t. t_identity_id t \<noteq> i) (user_api_tokens (db signed_in)),
       user_devices = filter (\<lambda>v. d_identity_id v \<noteq> i) (user_devices (db signed_in))\<rparr>"
    using delete_user_complete [OF demo_quiet run] by blast
  with run show ?thesis by (simp add: signed_in_def user_ids_def empty_database_def)
qed

text \<open>
  C22. Deleting a user removes the rows of their devices, and so the last record of the devices' OpenZiti
  identities, but never asks OpenZiti to delete one: the run is the same whatever that operation would do.
\<close>

theorem delete_user_leaves_ziti_identities:
  "DeleteUser (E\<lparr>e_delete_device_identity := f\<rparr>) c s = DeleteUser E c s"
proof -
  let ?F = "E\<lparr>e_delete_device_identity := f\<rparr>"
  have "identityIDFromContext ?F = identityIDFromContext E" "parseUUID ?F = parseUUID E"
    by (auto simp: identityIDFromContext_def parseUUID_def fun_eq_iff Let_def split: option.split)
  moreover have "admin_tuple ?F = admin_tuple E"
    by (simp add: admin_tuple_def fun_eq_iff)
  moreover have "store_DeleteUser ?F = store_DeleteUser E"
    by (simp add: store_DeleteUser_def fun_eq_iff run_sql_other)
  moreover have "e_status_code ?F = e_status_code E" "e_write ?F = e_write E" "e_check ?F = e_check E" by simp_all
  ultimately have "requireClusterAdmin ?F = requireClusterAdmin E" "syncClusterRole ?F = syncClusterRole E"
    "store_DeleteUser ?F = store_DeleteUser E" "parseUUID ?F = parseUUID E"
    by (simp_all only: requireClusterAdmin_def [abs_def] checkClusterAdmin_def [abs_def] syncClusterRole_def [abs_def])
  moreover have "e_list_objects ?F = e_list_objects E" "e_uuid_string ?F = e_uuid_string E" by simp_all
  ultimately show ?thesis using \<open>e_write ?F = e_write E\<close> by (simp only: DeleteUser_def)
qed

end
