(* ===== verification/Token_Facts.thy ===== *)
theory Token_Facts
  imports User_Changes "HOL-Library.Multiset"
begin

text \<open>
  What the API token methods promise when nobody else writes: a created token opens the door for its owner,
  an expired one does not and is not marked as used, a user revokes and lists their own tokens only.
\<close>

section \<open>Creation\<close>

lemma requested_expiry_Inr:
  "requested_expiry E ts w = Some (Inr e, w') \<Longrightarrow> e = map_option (e_ts_time E) ts \<and> db w' = db w"
  by (cases ts) (auto simp: requested_expiry_def call_Inr_iff ext_value_run split: if_splits sum.splits)

lemma generate_hash: "generate r = Inr g \<Longrightarrow> Hash g = hash_token (Plaintext g)"
  by (auto simp: generate_def Let_def split: sum.splits if_splits)

lemma quiet_insert_token:
  assumes "quiet E" and "store_CreateAPIToken E input w = Some (Inr token, w')"
  obtains t where "db w' = db w\<lparr>user_api_tokens := user_api_tokens (db w) @ [t]\<rparr>" "scanAPIToken t = Inr token"
    "t_identity_id t = cti_IdentityID input" "t_token_hash t = cti_TokenHash input" "t_name t = cti_Name input"
    "t_expires_at t = map_option (e_db_time E) (cti_ExpiresAt input)"
    "t_token_hash t \<notin> set (map t_token_hash (user_api_tokens (db w)))" "t_identity_id t \<in> user_ids (db w)"
proof -
  define t where "t = \<lparr>t_id = s_uuid (session_of E w), t_identity_id = cti_IdentityID input, t_name = cti_Name input,
         t_token_hash = cti_TokenHash input, t_token_prefix = cti_TokenPrefix input,
         t_expires_at = map_option (e_db_time E) (cti_ExpiresAt input),
         t_created_at = s_now (session_of E w), t_last_used_at = None\<rparr>"
  have "fst (sql_insert_token t (db w)) = Inr [t] \<and> scanAPIToken t = Inr token \<and> db w' = snd (sql_insert_token t (db w))"
    using assms(2) unfolding store_CreateAPIToken_def quiet_query_row [OF assms(1)]
    by (auto simp: t_def sql_insert_token_def split: if_splits)
  then show thesis
    by (intro that [of t]) (auto simp: sql_insert_token_def t_def split: if_splits)
qed

lemma create_token_Inr:
  assumes "quiet E" and "CreateAPIToken E c req w = Some (Inr resp, w')"
  obtains i t where "identityIDFromContext E c = Inr i"
    "db w' = db w\<lparr>user_api_tokens := user_api_tokens (db w) @ [t]\<rparr>"
    "car_Token resp = toProtoAPIToken E (projr (scanAPIToken t))"
    "t_identity_id t = i" "t_name t = cat_Name req" "t_token_hash t = hash_token (car_PlaintextToken resp)"
    "t_expires_at t = map_option (\<lambda>ts. e_db_time E (e_ts_time E ts)) (cat_ExpiresAt req)"
    "t_token_hash t \<notin> set (map t_token_hash (user_api_tokens (db w)))" "i \<in> user_ids (db w)"
proof -
  from assms(2) have "cat_Name req \<noteq> []" and i: "\<exists>i. identityIDFromContext E c = Inr i"
    by (auto simp: CreateAPIToken_def caller_def split: if_splits sum.splits)
  then obtain i where i: "identityIDFromContext E c = Inr i" by blast
  obtain e w1 g w2 token w3 where e: "requested_expiry E (cat_ExpiresAt req) w = Some (Inr e, w1)"
      and g: "attempt (ext_call (e_rand_read E 32)) (\<lambda>random. lift (generate random)) w1 = Some (Inr g, w2)"
      and token: "store_CreateAPIToken E \<lparr>cti_IdentityID = i, cti_Name = cat_Name req, cti_TokenHash = Hash g,
           cti_TokenPrefix = TokenPrefix g, cti_ExpiresAt = e\<rparr> w2 = Some (Inr token, w3)"
      and resp: "resp = \<lparr>car_Token = toProtoAPIToken E token, car_PlaintextToken = Plaintext g\<rparr>" "w' = w3"
    using assms(2) \<open>cat_Name req \<noteq> []\<close> by (auto simp: CreateAPIToken_def caller_def i call_Inr_iff)
  have w2: "db w2 = db w" and hash: "Hash g = hash_token (Plaintext g)"
    using requested_expiry_Inr [OF e] g generate_hash by (auto simp: attempt_Some_iff ext_call_run)
  from quiet_insert_token [OF assms(1) token] obtain t where
    "db w3 = db w2\<lparr>user_api_tokens := user_api_tokens (db w2) @ [t]\<rparr>" "scanAPIToken t = Inr token"
    "t_identity_id t = i" "t_token_hash t = Hash g" "t_name t = cat_Name req"
    "t_expires_at t = map_option (e_db_time E) e"
    "t_token_hash t \<notin> set (map t_token_hash (user_api_tokens (db w2)))" "t_identity_id t \<in> user_ids (db w2)"
    by auto
  then show thesis
    using w2 hash resp requested_expiry_Inr [OF e] by (intro that [of i t]) (auto simp: i option.map_comp comp_def)
qed

section \<open>Resolution\<close>

text \<open>The token with a hash, and the tables after it was marked as used at a time.\<close>

definition token_of :: "string \<Rightarrow> database \<Rightarrow> token_row option" where
  "token_of h d = (case filter (\<lambda>t. t_token_hash t = h) (user_api_tokens d) of [] \<Rightarrow> None | t # _ \<Rightarrow> Some t)"

definition touched :: "string \<Rightarrow> time \<Rightarrow> database \<Rightarrow> database" where
  "touched h now d = d\<lparr>user_api_tokens := map (\<lambda>t. if t_token_hash t = h then t\<lparr>t_last_used_at := Some now\<rparr> else t)
     (user_api_tokens d)\<rparr>"

lemma filter_distinct_single:
  "distinct (map f xs) \<Longrightarrow> filter (\<lambda>x. f x = k) xs = y # ys \<Longrightarrow> ys = [] \<and> f y = k"
  by (induction xs) (auto simp: filter_empty_conv split: if_splits, metis imageI)

lemma token_of_filter:
  assumes "schema_ok d"
  shows "filter (\<lambda>t. t_token_hash t = h) (user_api_tokens d) = (case token_of h d of None \<Rightarrow> [] | Some t \<Rightarrow> [t])"
proof (cases "filter (\<lambda>t. t_token_hash t = h) (user_api_tokens d)")
  case (Cons t ts)
  have "distinct (map t_token_hash (user_api_tokens d))" using assms by (simp add: schema_ok_def tokens_ok_def)
  from filter_distinct_single [OF this Cons] Cons show ?thesis by (simp add: token_of_def)
qed (simp add: token_of_def)

lemma quiet_store_resolve:
  assumes "quiet E" and "schema_ok (db w)" and "store_ResolveAPIToken E h w = Some (r, w')"
  shows "case token_of h (db w) of
      None \<Rightarrow> r = Inl (NotFound ''api token'') \<and> db w' = db w
    | Some t \<Rightarrow> (let now = s_now (session_of E w) in
        if token_live now t then r = scanAPIToken (t\<lparr>t_last_used_at := Some now\<rparr>) \<and> db w' = touched h now (db w)
        else r = scanAPIToken t \<and> db w' = db w)"
proof -
  let ?now = "s_now (session_of E w)"
  let ?live = "filter (\<lambda>t. t_token_hash t = h \<and> token_live ?now t) (user_api_tokens (db w))"
  have live: "?live = filter (token_live ?now) (case token_of h (db w) of None \<Rightarrow> [] | Some t \<Rightarrow> [t])"
    unfolding token_of_filter [OF assms(2), symmetric] by simp
  define w1 where "w1 = after_sql E (\<lambda>s. sql_touch_token (s_now s) h) w"
  have touch: "query_row E (\<lambda>s. sql_touch_token (s_now s) h) scanAPIToken w =
      Some (case ?live of [] \<Rightarrow> Inl ErrNoRows | t # _ \<Rightarrow> scanAPIToken (t\<lparr>t_last_used_at := Some ?now\<rparr>), w1)"
    by (simp add: quiet_query_row [OF assms(1)] w1_def sql_touch_token_def Let_def split: list.split)
  have w1: "db w1 = snd (sql_touch_token ?now h (db w))" by (simp add: w1_def)
  show ?thesis
  proof (cases "?live = []")
    case True
    then have "db w1 = db w"
      by (auto simp: w1 sql_touch_token_def filter_empty_conv Let_def intro!: database.equality map_idI)
    moreover have "query_row E (\<lambda>s. sql_select_token h) scanAPIToken w1 =
        Some (case token_of h (db w) of None \<Rightarrow> Inl ErrNoRows | Some t \<Rightarrow> scanAPIToken t, after_sql E (\<lambda>s. sql_select_token h) w1)"
      using calculation by (simp add: quiet_query_row [OF assms(1)] sql_select_token_def token_of_filter [OF assms(2)] split: option.split)
    ultimately show ?thesis
      using assms(3) touch True live
      by (auto simp: store_ResolveAPIToken_def attempt_def call_def scanAPIToken_def sql_select_token_def Let_def
          split: option.splits if_splits)
  next
    case False
    then obtain t where t: "token_of h (db w) = Some t" "token_live ?now t" "?live = [t]"
      using live by (cases "token_of h (db w)") (auto split: if_splits)
    have one: "t' = t" if "t' \<in> set (user_api_tokens (db w))" "t_token_hash t' = h" for t'
    proof -
      have "t' \<in> set (filter (\<lambda>t. t_token_hash t = h) (user_api_tokens (db w)))" using that by simp
      then show ?thesis unfolding token_of_filter [OF assms(2)] t(1) by simp
    qed
    have "map (\<lambda>t. if t_token_hash t = h \<and> token_live ?now t then t\<lparr>t_last_used_at := Some ?now\<rparr> else t) (user_api_tokens (db w))
        = map (\<lambda>t. if t_token_hash t = h then t\<lparr>t_last_used_at := Some ?now\<rparr> else t) (user_api_tokens (db w))"
      using one t(2) by (intro map_cong) auto
    then have "db w1 = touched h ?now (db w)"
      by (simp add: w1 sql_touch_token_def touched_def Let_def)
    then show ?thesis
      using assms(3) touch t by (auto simp: store_ResolveAPIToken_def attempt_def scanAPIToken_def Let_def)
  qed
qed

text \<open>The handler, given the token.\<close>

lemma quiet_resolve_token:
  assumes "quiet E" and "schema_ok (db w)" and "h \<noteq> []" and "ResolveAPIToken E c h w = Some (r, w')"
  shows "case token_of h (db w) of
      None \<Rightarrow> r = Inl (Status CodeNotFound ''api token not found'') \<and> db w' = db w
    | Some t \<Rightarrow> (let now = s_now (session_of E w) in
        db w' = (if token_live now t then touched h now (db w) else db w)
        \<and> (\<exists>q v. store_ResolveAPIToken E h w = Some (Inr q, v) \<and> (case r of
             Inl err \<Rightarrow> err = Status CodeUnauthenticated ''api token expired''
               \<and> (\<exists>e. t_expires_at t = Some e \<and> e \<le> fst (e_now E (ext v)))
           | Inr answer \<Rightarrow> rar_IdentityId answer = e_uuid_string E (t_identity_id t)
               \<and> pt_Id (rar_Token answer) = e_uuid_string E (t_id t)
               \<and> (\<forall>e. t_expires_at t = Some e \<longrightarrow> fst (e_now E (ext v)) < e))))"
proof -
  obtain q w1 where q: "store_ResolveAPIToken E h w = Some (q, w1)"
    using returnsD [OF returns_store(13)] by blast
  note stored = quiet_store_resolve [OF assms(1,2) q]
  show ?thesis
  proof (cases "token_of h (db w)")
    case None
    with stored q assms(3,4) show ?thesis
      by (auto simp: ResolveAPIToken_def call_def attempt_def toStatusError_def NotFound_def not_found_message_def)
  next
    case (Some t)
    let ?now = "s_now (session_of E w)"
    obtain t' where t': "q = scanAPIToken t'" "t_identity_id t' = t_identity_id t" "t_id t' = t_id t"
        "t_expires_at t' = t_expires_at t" and w1: "db w1 = (if token_live ?now t then touched h ?now (db w) else db w)"
      using stored Some by (auto simp: Let_def split: if_splits)
    show ?thesis
    proof (cases "t_expires_at t")
      case None
      with Some q t' w1 assms(3,4) show ?thesis
        by (auto simp: ResolveAPIToken_def call_def attempt_def scanAPIToken_def toProtoAPIToken_def Let_def)
    next
      case (Some e)
      with \<open>token_of h (db w) = Some t\<close> q t' w1 assms(3,4) show ?thesis
        by (auto simp: ResolveAPIToken_def call_def attempt_def scanAPIToken_def toProtoAPIToken_def Let_def ext_value_run
            split: if_splits)
    qed
  qed
qed

lemma resolve_returns: "returns (ResolveAPIToken E c h)"
proof (rule returnsI)
  fix w
  obtain q w1 where "store_ResolveAPIToken E h w = Some (q, w1)"
    using returnsD [OF returns_store(13)] by blast
  then have "ResolveAPIToken E c h w \<noteq> None"
    by (cases q) (auto simp: ResolveAPIToken_def call_def attempt_def ext_value_run split: option.splits sum.splits)
  then show "\<exists>r w'. ResolveAPIToken E c h w = Some (r, w')" by auto
qed

lemma hash_token_not_Nil: "hash_token s \<noteq> []"
proof -
  have "length (hash_token s) = 64" by (simp add: hash_token_def)
  then show ?thesis by auto
qed

text \<open>
  C7. A token that was created opens the door for its owner until it expires: when nobody else writes, looking
  up the hash of the text that was handed out finds the token in the store, and the answer depends on the
  service's clock right after that statement alone. If the request named no expiry, or the clock is before
  it (as the database stored it), the answer is the identity of the caller who created the token and the id
  of that token; otherwise it is the error Unauthenticated.
\<close>

theorem created_token_resolves:
  assumes "quiet E" and "schema_ok (db w)" and "CreateAPIToken E c req w = Some (Inr resp, w')"
    and "ResolveAPIToken E c' (hash_token (car_PlaintextToken resp)) w' = Some (r, w'')"
  shows "\<exists>i q v. identityIDFromContext E c = Inr i
    \<and> store_ResolveAPIToken E (hash_token (car_PlaintextToken resp)) w' = Some (Inr q, v)
    \<and> (let expired = (case cat_ExpiresAt req of None \<Rightarrow> False
          | Some ts \<Rightarrow> e_db_time E (e_ts_time E ts) \<le> fst (e_now E (ext v)))
      in case r of
        Inr answer \<Rightarrow> \<not> expired \<and> rar_IdentityId answer = e_uuid_string E i
          \<and> pt_Id (rar_Token answer) = pt_Id (car_Token resp)
      | Inl err \<Rightarrow> expired \<and> err = Status CodeUnauthenticated ''api token expired'')"
proof -
  let ?h = "hash_token (car_PlaintextToken resp)"
  obtain i t where i: "identityIDFromContext E c = Inr i" "t_identity_id t = i"
    and w': "db w' = db w\<lparr>user_api_tokens := user_api_tokens (db w) @ [t]\<rparr>"
    and resp: "car_Token resp = toProtoAPIToken E (projr (scanAPIToken t))"
    and hash: "t_token_hash t = ?h" "t_token_hash t \<notin> set (map t_token_hash (user_api_tokens (db w)))"
    and expiry: "t_expires_at t = map_option (\<lambda>ts. e_db_time E (e_ts_time E ts)) (cat_ExpiresAt req)"
    using create_token_Inr [OF assms(1,3)] by metis
  have "schema_ok (db w')"
  proof -
    have "within (keeps schema_ok) (CreateAPIToken E c req)"
      using constraints.kept_serve [OF quiet_lawful [OF assms(1)], of c "R_CreateAPIToken req"]
      by (simp add: within_def outcome_def call_def attempt_def split: option.splits sum.splits prod.splits)
        (metis (no_types, lifting) old.prod.exhaust old.sum.exhaust)
    with assms(2,3) show ?thesis by (auto simp: within_def keeps_def)
  qed
  moreover have t: "token_of ?h (db w') = Some t"
  proof -
    have "filter (\<lambda>t. t_token_hash t = ?h) (user_api_tokens (db w)) = []"
      using hash by (auto simp: filter_empty_conv image_iff)
    with hash(1) show ?thesis by (simp add: token_of_def w')
  qed
  ultimately obtain q v where "store_ResolveAPIToken E ?h w' = Some (Inr q, v)"
    and "case r of
        Inl err \<Rightarrow> err = Status CodeUnauthenticated ''api token expired''
          \<and> (\<exists>e. t_expires_at t = Some e \<and> e \<le> fst (e_now E (ext v)))
      | Inr answer \<Rightarrow> rar_IdentityId answer = e_uuid_string E (t_identity_id t)
          \<and> pt_Id (rar_Token answer) = e_uuid_string E (t_id t)
          \<and> (\<forall>e. t_expires_at t = Some e \<longrightarrow> fst (e_now E (ext v)) < e)"
    using quiet_resolve_token [OF assms(1) _ hash_token_not_Nil assms(4)] by (auto simp: Let_def)
  with i resp expiry show ?thesis
    by (intro exI [of _ i] exI [of _ q] exI [of _ v])
      (auto simp: Let_def toProtoAPIToken_def scanAPIToken_def not_le split: sum.splits option.splits)
qed

text \<open>
  C8. A token whose expiry has passed, on the service's clock and on the database's, opens nothing: the
  answer is Unauthenticated, and the token is not marked as used.
\<close>

theorem expired_token_refused:
  assumes "quiet E" and "schema_ok (db w)" and "h \<noteq> []" and "token_of h (db w) = Some t"
    and "t_expires_at t = Some e" and "\<forall>x. e \<le> fst (e_now E x)" and "\<forall>x. e \<le> s_now (fst (e_session E x))"
  shows "\<exists>w'. ResolveAPIToken E c h w = Some (Inl (Status CodeUnauthenticated ''api token expired''), w') \<and> db w' = db w"
proof -
  obtain r w' where run: "ResolveAPIToken E c h w = Some (r, w')"
    using returnsD [OF resolve_returns] by blast
  have "\<not> token_live (s_now (session_of E w)) t"
    using assms(5,7) by (simp add: token_live_def session_of_def not_less)
  moreover have "\<not> fst (e_now E x) < e" for x using assms(6) by (simp add: not_less)
  ultimately show ?thesis
    using quiet_resolve_token [OF assms(1,2,3) run] assms(4,5) run by (cases r) (auto simp: Let_def)
qed

text \<open>
  A lookup changes at most the time of the last use of the token looked up: no other field, token, user
  or device changes, whatever the answer.
\<close>

theorem lookup_touches_last_use_only:
  assumes "quiet E" and "schema_ok (db w)" and "ResolveAPIToken E c h w = Some (r, w')"
  shows "\<exists>now. db w' = db w \<or> db w' = db w\<lparr>user_api_tokens :=
    map (\<lambda>t. if t_token_hash t = h then t\<lparr>t_last_used_at := Some now\<rparr> else t) (user_api_tokens (db w))\<rparr>"
proof (cases "h = []")
  case True
  with assms(3) show ?thesis by (simp add: ResolveAPIToken_def)
next
  case False
  from quiet_resolve_token [OF assms(1,2) False assms(3)] show ?thesis
    by (auto simp: touched_def Let_def split: option.splits if_splits)
qed

section \<open>Revocation and listing\<close>

text \<open>
  C9. Revoking removes exactly the caller's token with the given id. Somebody else's token, like one that
  does not exist, is answered with NotFound and stays.
\<close>

theorem revoke_own_token_only:
  assumes "quiet E" and "identityIDFromContext E c = Inr i" and "parseUUID E s = Inr k"
    and "RevokeAPIToken E c s w = Some (r, w')"
  shows "db w' = db w\<lparr>user_api_tokens := filter (\<lambda>t. \<not> (t_id t = k \<and> t_identity_id t = i)) (user_api_tokens (db w))\<rparr>
    \<and> r = (if \<exists>t \<in> set (user_api_tokens (db w)). t_id t = k \<and> t_identity_id t = i then Inr ()
        else Inl (Status CodeNotFound ''api token not found''))"
proof -
  have "filter (\<lambda>t. t_id t = k \<and> t_identity_id t = i) (user_api_tokens (db w)) = []
      \<longleftrightarrow> \<not> (\<exists>t \<in> set (user_api_tokens (db w)). t_id t = k \<and> t_identity_id t = i)"
    by (auto simp: filter_empty_conv)
  then show ?thesis
    using assms
    by (auto simp: RevokeAPIToken_def caller_def store_RevokeAPIToken_def call_def attempt_def quiet_run [OF assms(1)]
        sql_delete_token_def Let_def toStatusError_def NotFound_def not_found_message_def split: if_splits)
qed

text \<open>
  A listing shows the caller every token of theirs and no other, the newest first.
\<close>

theorem list_own_tokens:
  assumes "quiet E" and "identityIDFromContext E c = Inr i" and "ListAPITokens E c w = Some (r, w')"
  shows "db w' = db w \<and> (\<exists>rows. r = Inr (map (\<lambda>t. toProtoAPIToken E (projr (scanAPIToken t))) rows)
    \<and> mset rows = filter_mset (\<lambda>t. t_identity_id t = i) (mset (user_api_tokens (db w)))
    \<and> sorted_wrt (\<lambda>a b. t_created_at a \<ge> t_created_at b) rows)"
proof -
  let ?rows = "sort_key (\<lambda>t. - t_created_at t) (filter (\<lambda>t. t_identity_id t = i) (user_api_tokens (db w)))"
  have "map_result scanAPIToken rows = Inr (map (\<lambda>t. projr (scanAPIToken t)) rows)" for rows
    by (rule map_result_total) (simp add: scanAPIToken_def)
  then have "r = Inr (map (\<lambda>t. toProtoAPIToken E (projr (scanAPIToken t))) ?rows)" and "db w' = db w"
    using assms
    by (auto simp: ListAPITokens_def caller_def store_ListAPITokens_def call_def attempt_def quiet_query [OF assms(1)]
        sql_select_tokens_newest_def comp_def)
  moreover have "sorted_wrt (\<lambda>a b. t_created_at a \<ge> t_created_at b) ?rows"
    using sorted_sort_key [of "\<lambda>t. - t_created_at t" "filter (\<lambda>t. t_identity_id t = i) (user_api_tokens (db w))"]
    by (simp add: sorted_wrt_map)
  ultimately show ?thesis by (intro conjI exI [of _ ?rows]) (simp_all add: mset_filter)
qed

section \<open>Witnesses\<close>

text \<open>User 1 with two tokens, one of which has expired.\<close>

definition with_tokens :: "nat world" where
  "with_tokens = \<lparr>db = \<lparr>users = users (db signed_in),
    user_api_tokens = [
      \<lparr>t_id = 20, t_identity_id = 1, t_name = ''ci'', t_token_hash = ''h1'', t_token_prefix = ''agyn_abc'',
       t_expires_at = None, t_created_at = 3, t_last_used_at = None\<rparr>,
      \<lparr>t_id = 21, t_identity_id = 1, t_name = ''old'', t_token_hash = ''h2'', t_token_prefix = ''agyn_xyz'',
       t_expires_at = Some (- 1), t_created_at = 2, t_last_used_at = None\<rparr>],
    user_devices = []\<rparr>, ext = 5\<rparr>"

lemma with_tokens_ok: "schema_ok (db with_tokens)"
  by code_simp

lemma user_one: "identityIDFromContext demo (as_user ''1'') = Inr 1"
  by code_simp

text \<open>The clock of the demonstration world counts its calls.\<close>

lemma demo_tick: "ext (after_sql demo stmt u) = ext u + 1"
  by (simp add: after_sql_def demo_def)

lemma demo_create_token:
  assumes "5 < n"
  shows "\<exists>resp w'. CreateAPIToken demo (as_user ''1'') \<lparr>cat_Name = ''ci'', cat_ExpiresAt = Some (Timestamp n 0)\<rparr> signed_in
    = Some (Inr resp, w') \<and> ext w' = 8"
proof -
  have rand: "e_rand_read demo 32 6 = (Inr (replicate 32 6), 7)" by (simp add: demo_def)
  obtain g where g: "generate (Inr (replicate 32 (6 :: 8 word))) = Inr g" using generate_eq [of "replicate 32 6"] by simp
  let ?input = "\<lparr>cti_IdentityID = 1, cti_Name = ''ci'', cti_TokenHash = Hash g, cti_TokenPrefix = TokenPrefix g,
    cti_ExpiresAt = Some n\<rparr>"
  have ext: "ext signed_in = 5" and now: "e_now demo 5 = (5, 6)" and ts: "e_ts_check demo ts = Inr ()"
      "e_ts_time demo (Timestamp n 0) = n" for ts by (simp_all add: signed_in_def demo_def)
  obtain token w' where "store_CreateAPIToken demo ?input (signed_in\<lparr>ext := 7\<rparr>) = Some (Inr token, w')" and "ext w' = 8"
    by (simp add: store_CreateAPIToken_def quiet_query_row [OF demo_quiet] sql_insert_token_def scanAPIToken_def
        signed_in_def user_ids_def demo_tick)
  then show ?thesis
    using assms by (simp add: CreateAPIToken_def caller_def user_one requested_expiry_def call_def attempt_def
        ext_call_run ext_value_run rand g ext now ts)
qed

lemma demo_store_clock:
  assumes "store_ResolveAPIToken demo h w = Some (Inr q, v)"
  shows "ext v \<in> {ext w + 1, ext w + 2}"
  using assms by (auto simp: store_ResolveAPIToken_def attempt_def call_def quiet_query_row [OF demo_quiet] demo_tick
      split: sum.splits if_splits)

text \<open>A token that lasts until time 100 opens the door; one that lasts until 7 has expired when it is looked up.\<close>

theorem created_token_resolves_witness:
  "(\<exists>resp w' a w''. CreateAPIToken demo (as_user ''1'') \<lparr>cat_Name = ''ci'', cat_ExpiresAt = Some (Timestamp 100 0)\<rparr> signed_in
        = Some (Inr resp, w')
      \<and> ResolveAPIToken demo background (hash_token (car_PlaintextToken resp)) w' = Some (Inr a, w'')
      \<and> rar_IdentityId a = ''1'')
    \<and> (\<exists>resp w' w''. CreateAPIToken demo (as_user ''1'') \<lparr>cat_Name = ''ci'', cat_ExpiresAt = Some (Timestamp 7 0)\<rparr> signed_in
        = Some (Inr resp, w')
      \<and> ResolveAPIToken demo background (hash_token (car_PlaintextToken resp)) w'
        = Some (Inl (Status CodeUnauthenticated ''api token expired''), w''))"
proof -
  have ok: "schema_ok (db signed_in)" by code_simp
  have one: "e_uuid_string demo 1 = ''1''" by code_simp
  have clock: "e_db_time demo (e_ts_time demo (Timestamp n 0)) = n" "fst (e_now demo x) = int x" for n x
    by (simp_all add: demo_def)
  have looked: "\<exists>r w''. ResolveAPIToken demo background h w = Some (r, w'')" for h w
    using returnsD [OF resolve_returns] by blast
  obtain r1 w1 where run1: "CreateAPIToken demo (as_user ''1'') \<lparr>cat_Name = ''ci'', cat_ExpiresAt = Some (Timestamp 100 0)\<rparr>
      signed_in = Some (Inr r1, w1)" and x1: "ext w1 = 8" using demo_create_token [of 100] by auto
  obtain a1 v1 where res1: "ResolveAPIToken demo background (hash_token (car_PlaintextToken r1)) w1 = Some (a1, v1)"
    using looked by blast
  from created_token_resolves [OF demo_quiet ok run1 res1] have "\<exists>a. a1 = Inr a \<and> rar_IdentityId a = ''1''"
    using demo_store_clock x1 by (fastforce simp: user_one one clock Let_def split: sum.splits)
  moreover obtain r2 w2 where run2: "CreateAPIToken demo (as_user ''1'')
      \<lparr>cat_Name = ''ci'', cat_ExpiresAt = Some (Timestamp 7 0)\<rparr> signed_in = Some (Inr r2, w2)" and x2: "ext w2 = 8"
    using demo_create_token [of 7] by auto
  obtain a2 v2 where res2: "ResolveAPIToken demo background (hash_token (car_PlaintextToken r2)) w2 = Some (a2, v2)"
    using looked by blast
  from created_token_resolves [OF demo_quiet ok run2 res2] have "a2 = Inl (Status CodeUnauthenticated ''api token expired'')"
    using demo_store_clock x2 by (fastforce simp: clock Let_def split: sum.splits)
  ultimately show ?thesis using run1 res1 run2 res2 by blast
qed

theorem expired_token_refused_witness:
  "\<exists>w'. ResolveAPIToken demo background ''h2'' with_tokens
    = Some (Inl (Status CodeUnauthenticated ''api token expired''), w') \<and> db w' = db with_tokens"
  by (rule expired_token_refused [OF demo_quiet with_tokens_ok,
      where e = "- 1" and t = "user_api_tokens (db with_tokens) ! 1"])
    (simp_all add: with_tokens_def token_of_def demo_def)

theorem lookup_touches_last_use_only_witness:
  "\<exists>r w'. ResolveAPIToken demo background ''h1'' with_tokens = Some (Inr r, w') \<and> users (db w') = users (db with_tokens)"
proof -
  have "case ResolveAPIToken demo background ''h1'' with_tokens of Some (Inr r, w) \<Rightarrow> True | _ \<Rightarrow> False" by code_simp
  then obtain r w' where run: "ResolveAPIToken demo background ''h1'' with_tokens = Some (Inr r, w')"
    by (auto split: option.splits prod.splits sum.splits)
  from lookup_touches_last_use_only [OF demo_quiet with_tokens_ok run] run show ?thesis by auto
qed

theorem revoke_own_token_only_witness:
  "\<exists>w'. RevokeAPIToken demo (as_user ''1'') ''20'' with_tokens = Some (Inr (), w')
    \<and> map t_name (user_api_tokens (db w')) = [''old'']"
proof -
  have "case RevokeAPIToken demo (as_user ''1'') ''20'' with_tokens of Some (Inr r, w) \<Rightarrow> True | _ \<Rightarrow> False" by code_simp
  then obtain w' where run: "RevokeAPIToken demo (as_user ''1'') ''20'' with_tokens = Some (Inr (), w')"
    by (auto split: option.splits prod.splits sum.splits)
  have "parseUUID demo ''20'' = Inr 20" by code_simp
  from revoke_own_token_only [OF demo_quiet user_one this run] run show ?thesis by (simp add: with_tokens_def)
qed

theorem list_own_tokens_witness:
  "\<exists>ps w'. ListAPITokens demo (as_user ''1'') with_tokens = Some (Inr ps, w') \<and> length ps = 2"
proof -
  have "case ListAPITokens demo (as_user ''1'') with_tokens of Some (Inr ps, w) \<Rightarrow> True | _ \<Rightarrow> False" by code_simp
  then obtain r w' where run: "ListAPITokens demo (as_user ''1'') with_tokens = Some (r, w')"
    by (auto split: option.splits)
  from list_own_tokens [OF demo_quiet user_one run] obtain rows :: "token_row list" where
      r: "r = Inr (map (\<lambda>t. toProtoAPIToken demo (projr (scanAPIToken t))) rows)"
      and "mset rows = filter_mset (\<lambda>t. t_identity_id t = 1) (mset (user_api_tokens (db with_tokens)))"
    by blast
  then have "size (mset rows) = 2" by (simp add: with_tokens_def)
  with r run show ?thesis by simp
qed

end
