(* ===== verification/Device_Facts.thy ===== *)
theory Device_Facts
  imports Sync_Facts User_Changes
begin

text \<open>
  What the device methods promise: devices and OpenZiti identities come and go together, with the exceptions
  that a failure at the wrong moment makes, and a user deletes only their own devices.
\<close>

section \<open>Identities and devices\<close>

text \<open>
  \<open>alive x\<close> are the OpenZiti identities that exist in the outside state \<open>x\<close>. The management service is
  assumed to make a new identity when it answers with an id, and to have deleted the one it was asked to when it
  says so. What it answers may lack the id or the enrollment token, and both calls may fail, before they did
  anything or after.
\<close>

definition ziti_tracks :: "'x env \<Rightarrow> ('x \<Rightarrow> string set) \<Rightarrow> bool" where
  "ziti_tracks E alive \<longleftrightarrow> reads_keep E alive
    \<and> (\<forall>c req x. case e_create_device_identity E c req x of
        (Inl _, x') \<Rightarrow> alive x \<subseteq> alive x'
      | (Inr z, x') \<Rightarrow> if cd_ziti_identity_id z = [] then alive x \<subseteq> alive x'
          else cd_ziti_identity_id z \<notin> alive x \<and> alive x' = insert (cd_ziti_identity_id z) (alive x))
    \<and> (\<forall>c z x. case e_delete_device_identity E c z x of
        (Inl _, x') \<Rightarrow> alive x - {z} \<subseteq> alive x' \<and> alive x' \<subseteq> alive x
      | (Inr _, x') \<Rightarrow> alive x' = alive x - {z})"

lemma ziti_reads_alive: "ziti_tracks E alive \<Longrightarrow> reads_keep E alive"
  unfolding ziti_tracks_def by (rule conjunct1)

lemma ziti_creates:
  assumes "ziti_tracks E alive" and "e_create_device_identity E c req x = (answer, x')"
  shows "alive x \<subseteq> alive x'" and "answer = Inr z \<Longrightarrow> cd_ziti_identity_id z \<noteq> [] \<Longrightarrow>
    cd_ziti_identity_id z \<notin> alive x \<and> alive x' = insert (cd_ziti_identity_id z) (alive x)"
  using assms(1) [unfolded ziti_tracks_def, THEN conjunct2, THEN conjunct1, THEN spec [of _ c], THEN spec [of _ req],
      THEN spec [of _ x]] assms(2)
  by (auto split: sum.splits if_splits)

lemma ziti_deletes:
  assumes "ziti_tracks E alive" and "e_delete_device_identity E c z x = (answer, x')"
  shows "alive x - {z} \<subseteq> alive x'" and "alive x' \<subseteq> alive x" and "answer = Inr u \<Longrightarrow> alive x' = alive x - {z}"
  using assms(1) [unfolded ziti_tracks_def, THEN conjunct2, THEN conjunct2, THEN spec [of _ c], THEN spec [of _ z],
      THEN spec [of _ x]] assms(2)
  by (auto split: sum.splits)

text \<open>Every device has an identity of its own; the identities without a device.\<close>

definition device_ids :: "database \<Rightarrow> string list" where
  "device_ids d = map d_openziti_identity_id (user_devices d)"

definition backed :: "('x \<Rightarrow> string set) \<Rightarrow> 'x world \<Rightarrow> bool" where
  "backed alive w \<longleftrightarrow> distinct (device_ids (db w)) \<and> set (device_ids (db w)) \<subseteq> alive (ext w)"

definition orphans :: "('x \<Rightarrow> string set) \<Rightarrow> 'x world \<Rightarrow> string set" where
  "orphans alive w = alive (ext w) - set (device_ids (db w))"

text \<open>
  The steps of a creation: the answer of the management service and the state after it, and for an answer with
  an id and a token what the insertion of the device gives.
\<close>

definition asked :: "'x env \<Rightarrow> ctx \<Rightarrow> string \<Rightarrow> 'x world \<Rightarrow> go_err + create_device_identity_response \<Rightarrow> 'x world \<Rightarrow> bool" where
  "asked E c name w answer u \<longleftrightarrow> (\<exists>i attrs w1. identityIDFromContext E c = Inr i
    \<and> userGroupRoleAttributes E c i w = Some (Inr attrs, w1)
    \<and> ext_call (e_create_device_identity E c
        \<lparr>cd_user_identity_id = e_uuid_string E i, cd_name = name, cd_additional_role_attributes = attrs\<rparr>) w1
      = Some (answer, u))"

definition inserted :: "'x env \<Rightarrow> ctx \<Rightarrow> string \<Rightarrow> 'x world \<Rightarrow> create_device_identity_response
    \<Rightarrow> 'x world \<Rightarrow> go_err + device \<Rightarrow> 'x world \<Rightarrow> bool" where
  "inserted E c name w z u stored v \<longleftrightarrow> asked E c name w (Inr z) u \<and> (\<exists>i. identityIDFromContext E c = Inr i
    \<and> store_CreateDevice E \<lparr>cdi_IdentityID = i, cdi_Name = name, cdi_OpenZitiIdentityID = cd_ziti_identity_id z,
        cdi_EnrollmentJWT = cd_enrollment_jwt z\<rparr> u = Some (stored, v))"

section \<open>The two statements\<close>

lemma store_device_keeps:
  "reads_keep E view \<Longrightarrow> within (view_same view) (store_CreateDevice E input)"
  "reads_keep E view \<Longrightarrow> within (view_same view) (store_DeleteDevice E i k)"
  unfolding store_CreateDevice_def store_DeleteDevice_def query_row_def
  by (intro unchanged.within_rules unchanged_run_sql | assumption)+

lemma alone_store_device:
  assumes "alone E" and "store_CreateDevice E input w = Some (r, w')"
  obtains (none) e where "r = Inl e" "device_ids (db w') = device_ids (db w)"
    | (unanswered) e msg where "r = Inl e" "device_ids (db w') = device_ids (db w) @ [cdi_OpenZitiIdentityID input]"
        "s_fault (session_of E w) = FaultAfter msg"
    | (made) d where "r = Inr d" "device_ids (db w') = device_ids (db w) @ [cdi_OpenZitiIdentityID input]"
  using assms(1) assms(2) [unfolded store_CreateDevice_def]
proof (cases rule: alone_query_row)
  case ran
  then show thesis
    using none made
    by (auto simp: sql_insert_device_def device_ids_def scanDevice_def DeviceConnectivityOffline_def split: if_splits)
next
  case (before msg)
  with none show thesis by (simp add: device_ids_def)
next
  case (after msg)
  then show thesis
    using none unanswered by (auto simp: sql_insert_device_def device_ids_def split: if_splits)
qed

text \<open>The deletion takes one identity from the list: the row's id is its key.\<close>

lemma alone_remove_device:
  assumes "alone E" and "schema_ok (db w)" and "stored_ok (db w)" and "distinct (device_ids (db w))"
    and "store_DeleteDevice E i k w = Some (r, w')"
  obtains (none) e where "r = Inl e" "device_ids (db w') = device_ids (db w)"
    | (unanswered) e z msg where "r = Inl e" "device_ids (db w') = filter (\<lambda>y. y \<noteq> z) (device_ids (db w))"
        "s_fault (session_of E w) = FaultAfter msg"
    | (removed) d where "r = Inr d"
        "device_ids (db w') = filter (\<lambda>y. y \<noteq> dev_OpenZitiIdentityID d) (device_ids (db w))"
proof -
  let ?p = "\<lambda>v. d_id v = k \<and> d_identity_id v = i"
  obtain q where q: "query_row E (\<lambda>s. sql_delete_device k i) scanDevice w = Some (q, w')"
      and r: "r = (case q of Inl err \<Rightarrow> Inl (if is_no_rows err then NotFound ''device'' else err) | Inr d \<Rightarrow> Inr d)"
    using assms(5)
    by (cases "query_row E (\<lambda>s. sql_delete_device k i) scanDevice w")
      (auto simp: store_DeleteDevice_def call_def attempt_def split: sum.splits)
  consider (miss) "filter ?p (user_devices (db w)) = []"
      "device_ids (snd (sql_delete_device k i (db w))) = device_ids (db w)"
    | (hit) v rest d where "filter ?p (user_devices (db w)) = v # rest" "scanDevice v = Inr d"
        "device_ids (snd (sql_delete_device k i (db w))) = filter (\<lambda>y. y \<noteq> dev_OpenZitiIdentityID d) (device_ids (db w))"
  proof (cases "filter ?p (user_devices (db w))")
    case Nil
    then have "filter (\<lambda>v. \<not> ?p v) (user_devices (db w)) = user_devices (db w)"
      by (auto simp: filter_empty_conv filter_id_conv)
    with Nil that(1) show thesis by (simp add: sql_delete_device_def device_ids_def Let_def)
  next
    case (Cons v rest)
    then have v: "v \<in> set (user_devices (db w))" "?p v" by (auto simp: filter_eq_Cons_iff)
    obtain d where d: "scanDevice v = Inr d" "dev_OpenZitiIdentityID d = d_openziti_identity_id v"
      using assms(3) v(1) by (auto simp: stored_ok_def list_all_iff device_row_valid_def scanDevice_def)
    have distinct: "distinct (map d_id (user_devices (db w)))" using assms(2) by (simp add: schema_ok_def devices_ok_def)
    have "?p u \<longleftrightarrow> d_openziti_identity_id u = d_openziti_identity_id v" if "u \<in> set (user_devices (db w))" for u
      using distinct assms(4) [unfolded device_ids_def] v that by (metis distinct_map inj_onD)
    then have "filter (\<lambda>u. \<not> ?p u) (user_devices (db w)) =
        filter (\<lambda>u. d_openziti_identity_id u \<noteq> d_openziti_identity_id v) (user_devices (db w))"
      by (intro filter_cong) auto
    with Cons d that(2) show thesis
      by (simp add: sql_delete_device_def device_ids_def Let_def filter_map comp_def)
  qed
  note rows = this
  from assms(1) q show thesis
  proof (cases rule: alone_query_row)
    case ran
    from rows show thesis
      by cases (use ran r none removed in \<open>simp_all add: sql_delete_device_def Let_def\<close>)
  next
    case (before msg)
    with r none show thesis by (simp add: device_ids_def)
  next
    case (after msg)
    from rows show thesis
      by cases (use after r none unanswered in \<open>simp_all add: device_ids_def\<close>)
  qed
qed

lemma quiet_remove_device:
  assumes "quiet E" and "reads_keep E alive" and "schema_ok (db w)" and "stored_ok (db w)"
    and "store_DeleteDevice E i k w = Some (r, w')"
  shows "alive (ext w') = alive (ext w)
    \<and> db w' = db w\<lparr>user_devices := filter (\<lambda>v. \<not> (d_id v = k \<and> d_identity_id v = i)) (user_devices (db w))\<rparr>
    \<and> (case r of
        Inl err \<Rightarrow> err = NotFound ''device'' \<and> (\<forall>v \<in> set (user_devices (db w)). \<not> (d_id v = k \<and> d_identity_id v = i))
      | Inr d \<Rightarrow> \<exists>v \<in> set (user_devices (db w)). d_id v = k \<and> d_identity_id v = i \<and> scanDevice v = Inr d
          \<and> dev_OpenZitiIdentityID d = d_openziti_identity_id v)"
proof -
  let ?rows = "filter (\<lambda>v. d_id v = k \<and> d_identity_id v = i) (user_devices (db w))"
  have scan: "\<exists>d. scanDevice v = Inr d \<and> dev_OpenZitiIdentityID d = d_openziti_identity_id v"
    if "v \<in> set (user_devices (db w))" for v
    using assms(4) that by (auto simp: stored_ok_def list_all_iff device_row_valid_def scanDevice_def)
  have kept: "alive (snd (e_session E (ext w))) = alive (ext w)"
    using assms(2) by (simp add: reads_keep_def)
  show ?thesis
  proof (cases ?rows)
    case Nil
    then have "\<forall>v \<in> set (user_devices (db w)). \<not> (d_id v = k \<and> d_identity_id v = i)"
      by (auto simp: filter_empty_conv)
    with Nil show ?thesis
      using assms(5) kept
      by (auto simp: store_DeleteDevice_def call_def attempt_def quiet_query_row [OF assms(1)] after_sql_def
          sql_delete_device_def Let_def)
  next
    case (Cons v vs)
    then have v: "v \<in> set (user_devices (db w))" "d_id v = k" "d_identity_id v = i"
      by (auto simp: filter_eq_Cons_iff)
    obtain d where d: "scanDevice v = Inr d" "dev_OpenZitiIdentityID d = d_openziti_identity_id v" using scan v(1) by blast
    have "query_row E (\<lambda>s. sql_delete_device k i) scanDevice w = Some (Inr d, after_sql E (\<lambda>s. sql_delete_device k i) w)"
      by (simp add: quiet_query_row [OF assms(1)] sql_delete_device_def Cons d(1))
    then have "r = Inr d" and w': "w' = after_sql E (\<lambda>s. sql_delete_device k i) w"
      using assms(5) by (simp_all add: store_DeleteDevice_def call_def attempt_def)
    moreover have "alive (ext w') = alive (ext w)" using kept by (simp add: w' after_sql_def)
    moreover have "db w' = db w\<lparr>user_devices := filter (\<lambda>v. \<not> (d_id v = k \<and> d_identity_id v = i)) (user_devices (db w))\<rparr>"
      by (simp add: w' sql_delete_device_def Let_def)
    ultimately show ?thesis using v d by auto
  qed
qed

text \<open>A creation, with the two ways in which it can leave devices and identities apart.\<close>

lemma create_device_backed:
  assumes "alone E" and "ziti_tracks E alive" and "backed alive w" and "CreateDevice E c name w = Some (r, w')"
  shows "(backed alive w' \<or> (\<exists>z u err v msg. inserted E c name w z u (Inl err) v \<and> s_fault (session_of E u) = FaultAfter msg))
    \<and> (orphans alive w' \<subseteq> orphans alive w
      \<or> (\<exists>err. asked E c name w (Inl err) w')
      \<or> (\<exists>z. asked E c name w (Inr z) w' \<and> (cd_ziti_identity_id z = [] \<or> cd_enrollment_jwt z = []))
      \<or> (\<exists>z u err v e. inserted E c name w z u (Inl err) v
          \<and> fst (e_delete_device_identity E c (cd_ziti_identity_id z) (ext v)) = Inl e))"
proof (cases "\<exists>i. identityIDFromContext E c = Inr i \<and> name \<noteq> []")
  case False
  with assms(3,4) show ?thesis by (auto simp: CreateDevice_def caller_def split: if_splits sum.splits)
next
  case True
  then obtain i where i: "identityIDFromContext E c = Inr i" and name: "name \<noteq> []" by blast
  note reads = ziti_reads_alive [OF assms(2)]
  obtain q w1 where q: "userGroupRoleAttributes E c i w = Some (q, w1)"
    using assms(4) by (cases "userGroupRoleAttributes E c i w") (auto simp: CreateDevice_def caller_def i name call_def attempt_def)
  have w1: "db w1 = db w" "alive (ext w1) = alive (ext w)"
    by (rule same_db [OF same_userGroupRoleAttributes q], rule same_view [OF unchanged_attributes [OF reads] q])
  show ?thesis
  proof (cases q)
    case (Inl err)
    then have "w' = w1" using assms(4) q by (simp add: CreateDevice_def caller_def i name call_def attempt_def)
    with w1 assms(3) show ?thesis by (simp add: backed_def orphans_def)
  next
    case (Inr attrs)
    obtain answer x where made: "e_create_device_identity E c \<lparr>cd_user_identity_id = e_uuid_string E i, cd_name = name,
        cd_additional_role_attributes = attrs\<rparr> (ext w1) = (answer, x)" by fastforce
    define w2 where "w2 = w1\<lparr>ext := x\<rparr>"
    have asked: "asked E c name w answer w2"
      using i q Inr made by (auto simp: asked_def ext_call_run w2_def)
    have w2: "backed alive w2"
      using assms(3) w1 ziti_creates(1) [OF assms(2) made] by (auto simp: backed_def w2_def)
    show ?thesis
    proof (cases "\<exists>z. answer = Inr z \<and> cd_ziti_identity_id z \<noteq> [] \<and> cd_enrollment_jwt z \<noteq> []")
      case False
      then have "w' = w2"
        using assms(4) q Inr made
        by (cases answer) (auto simp: CreateDevice_def caller_def i name call_def attempt_def ext_call_run w2_def split: if_splits)
      with False asked w2 show ?thesis by (cases answer) auto
    next
      case True
      then obtain z where z: "answer = Inr z" "cd_ziti_identity_id z \<noteq> []" "cd_enrollment_jwt z \<noteq> []" by blast
      let ?z = "cd_ziti_identity_id z" and ?input = "\<lparr>cdi_IdentityID = i, cdi_Name = name,
        cdi_OpenZitiIdentityID = cd_ziti_identity_id z, cdi_EnrollmentJWT = cd_enrollment_jwt z\<rparr>"
      obtain stored w3 where stored: "store_CreateDevice E ?input w2 = Some (stored, w3)"
        using returnsD [OF returns_store(14)] by blast
      have new: "?z \<notin> alive (ext w)" "alive (ext w3) = insert ?z (alive (ext w))"
        using ziti_creates(2) [OF assms(2) made z(1,2)] same_view [OF store_device_keeps(1) [OF reads] stored] w1
        by (simp_all add: w2_def)
      have ins: "inserted E c name w z w2 stored w3" using asked z(1) i stored by (auto simp: inserted_def)
      have run: "(case stored of
          Inl err \<Rightarrow> attempt (ext_call (e_delete_device_identity E c ?z)) (\<lambda>_. fail (toStatusError err))
        | Inr d \<Rightarrow> call (need (toProtoDevice E d)) id (\<lambda>p. ret \<lparr>cdr_Device = p, cdr_EnrollmentJwt = cd_enrollment_jwt z\<rparr>)) w3
          = Some (r, w')"
        using assms(4) q Inr made z stored
        by (simp add: CreateDevice_def caller_def i name call_def attempt_def ext_call_run w2_def)
      have d2: "db w2 = db w" using w1 by (simp add: w2_def)
      have old: "?z \<notin> set (device_ids (db w))" "distinct (device_ids (db w))" "set (device_ids (db w)) \<subseteq> alive (ext w)"
        using assms(3) new(1) by (auto simp: backed_def)
      show ?thesis
      proof (cases stored)
        case (Inr d)
        obtain p where "toProtoDevice E d = Some p"
          using to_proto_device_total [OF store_devices_ok(1) [OF stored [unfolded Inr]]] by blast
        then have w': "w' = w3" using run Inr by simp
        have "device_ids (db w3) = device_ids (db w) @ [?z]"
          using alone_store_device [OF assms(1) stored] Inr d2 by (metis create_device_input.select_convs(3) sum.distinct(1))
        with new old w' show ?thesis by (auto simp: backed_def orphans_def)
      next
        case (Inl err)
        obtain a y where del: "e_delete_device_identity E c ?z (ext w3) = (a, y)" by fastforce
        then have w': "w' = w3\<lparr>ext := y\<rparr>" using run Inl by (simp add: attempt_def ext_call_run)
        note gone = ziti_deletes [OF assms(2) del]
        from assms(1) stored show ?thesis
        proof (cases rule: alone_store_device)
          case (none e)
          have keeps: "backed alive w'" using none(2) d2 old gone(1) new by (auto simp: backed_def w')
          show ?thesis
          proof (cases a)
            case (Inl e')
            with keeps ins \<open>stored = Inl err\<close> del show ?thesis by force
          next
            case (Inr u)
            with gone(3) new have "alive y = alive (ext w)" by auto
            with keeps none(2) d2 show ?thesis by (simp add: orphans_def w')
          qed
        next
          case (unanswered e msg)
          have "orphans alive w' \<subseteq> orphans alive w"
            using unanswered(2) d2 gone(2) new by (auto simp: orphans_def w')
          with ins Inl unanswered(3) show ?thesis by blast
        qed (use Inl in simp)
      qed
    qed
  qed
qed

text \<open>A deletion.\<close>

lemma delete_device_backed:
  assumes "alone E" and "ziti_tracks E alive" and "schema_ok (db w)" and "stored_ok (db w)" and "backed alive w"
    and "DeleteDevice E c s w = Some (r, w')"
  shows "backed alive w' \<and> (orphans alive w' \<subseteq> orphans alive w
    \<or> (\<exists>i k q v. identityIDFromContext E c = Inr i \<and> parseUUID E s = Inr k \<and> store_DeleteDevice E i k w = Some (q, v)
        \<and> ((\<exists>msg. s_fault (session_of E w) = FaultAfter msg)
          \<or> (\<exists>d e. q = Inr d \<and> fst (e_delete_device_identity E c (dev_OpenZitiIdentityID d) (ext v)) = Inl e))))"
proof (cases "\<exists>i k. identityIDFromContext E c = Inr i \<and> parseUUID E s = Inr k")
  case False
  with assms(5,6) show ?thesis by (auto simp: DeleteDevice_def caller_def split: sum.splits)
next
  case True
  then obtain i k where ik: "identityIDFromContext E c = Inr i" "parseUUID E s = Inr k" by blast
  obtain q w1 where q: "store_DeleteDevice E i k w = Some (q, w1)"
    using returnsD [OF returns_store(17)] by blast
  have w1: "alive (ext w1) = alive (ext w)"
    by (rule same_view [OF store_device_keeps(2) [OF ziti_reads_alive [OF assms(2)]] q])
  have old: "distinct (device_ids (db w))" "set (device_ids (db w)) \<subseteq> alive (ext w)"
    using assms(5) by (simp_all add: backed_def)
  have end': "w' = w1" if "q = Inl e" for e
    using assms(6) q that by (simp add: DeleteDevice_def caller_def ik call_def attempt_def)
  from assms(1,3,4) old(1) q show ?thesis
  proof (cases rule: alone_remove_device)
    case (none e)
    with end' w1 old show ?thesis by (simp add: backed_def orphans_def)
  next
    case (unanswered e z msg)
    with end' w1 old have "backed alive w'" by (auto simp: backed_def)
    with ik q unanswered(3) show ?thesis by blast
  next
    case (removed d)
    obtain a y where del: "e_delete_device_identity E c (dev_OpenZitiIdentityID d) (ext w1) = (a, y)" by fastforce
    have w': "w' = w1\<lparr>ext := y\<rparr>"
      using assms(6) q removed(1) del by (simp add: DeleteDevice_def caller_def ik call_def attempt_def ext_call_run)
    note gone = ziti_deletes [OF assms(2) del]
    have keeps: "backed alive w'" using removed(2) w1 old gone(1) by (auto simp: backed_def w')
    show ?thesis
    proof (cases a)
      case (Inl e)
      with keeps ik q removed(1) del show ?thesis by force
    next
      case (Inr u)
      then have "orphans alive w' \<subseteq> orphans alive w" using gone(3) removed(2) w1 by (auto simp: orphans_def w')
      with keeps show ?thesis by blast
    qed
  qed
qed

text \<open>
  C10. Devices and OpenZiti identities come and go together: from a state in which every device has an identity of
  its own, a creation or a deletion of a device leads to such a state again and leaves no identity without a
  device that was not so before, whatever fails on the way, with the following exceptions only. A device without
  an identity stays when the connection to the database fails after the insertion of the device took effect.
  An identity without a device stays when OpenZiti answers the creation with an error, or without an id or a
  token; when the insertion fails and OpenZiti refuses to delete the identity again; and after the deletion of a
  device when OpenZiti refuses, or the connection to the database failed at that statement after it took
  effect. Assumed are that no other session writes, that OpenZiti's answers are true as \<open>ziti_tracks\<close> says,
  and the constraints and valid rows of the tables.
\<close>

theorem devices_and_identities_paired:
  assumes "alone E" and "ziti_tracks E alive" and "schema_ok (db w)" and "stored_ok (db w)" and "backed alive w"
  shows "(CreateDevice E c name w = Some (r, w') \<longrightarrow>
      (backed alive w' \<or> (\<exists>z u err v msg. inserted E c name w z u (Inl err) v \<and> s_fault (session_of E u) = FaultAfter msg))
      \<and> (orphans alive w' \<subseteq> orphans alive w
        \<or> (\<exists>err. asked E c name w (Inl err) w')
        \<or> (\<exists>z. asked E c name w (Inr z) w' \<and> (cd_ziti_identity_id z = [] \<or> cd_enrollment_jwt z = []))
        \<or> (\<exists>z u err v e. inserted E c name w z u (Inl err) v
            \<and> fst (e_delete_device_identity E c (cd_ziti_identity_id z) (ext v)) = Inl e)))
    \<and> (DeleteDevice E c s w = Some (q, w') \<longrightarrow>
      backed alive w' \<and> (orphans alive w' \<subseteq> orphans alive w
        \<or> (\<exists>i k p v. identityIDFromContext E c = Inr i \<and> parseUUID E s = Inr k \<and> store_DeleteDevice E i k w = Some (p, v)
            \<and> ((\<exists>msg. s_fault (session_of E w) = FaultAfter msg)
              \<or> (\<exists>d e. p = Inr d \<and> fst (e_delete_device_identity E c (dev_OpenZitiIdentityID d) (ext v)) = Inl e)))))"
  by (rule conjI; rule impI)
    (erule create_device_backed [OF assms(1,2,5)], erule delete_device_backed [OF assms])

text \<open>
  C12. When the management service answers with an identity but without an enrollment token, the creation
  fails and the identity is not deleted again: the answer of the service is the last thing that happens.
\<close>

theorem missing_token_leaves_identity:
  assumes "identityIDFromContext E c = Inr i" and "name \<noteq> []"
    and "userGroupRoleAttributes E c i w = Some (Inr attrs, w1)"
    and "e_create_device_identity E c \<lparr>cd_user_identity_id = e_uuid_string E i, cd_name = name,
      cd_additional_role_attributes = attrs\<rparr> (ext w1) = (Inr z, x)"
    and "cd_ziti_identity_id z \<noteq> []" and "cd_enrollment_jwt z = []"
  shows "CreateDevice E c name w
    = Some (Inl (Status CodeInternal ''create device identity: missing enrollment jwt''), w1\<lparr>ext := x\<rparr>)"
  using assms by (simp add: CreateDevice_def caller_def call_def attempt_def ext_call_def)

text \<open>
  C11. Deleting a device removes exactly the caller's device with the given id; somebody else's device, like one that
  does not exist, is answered with NotFound and stays, and no failure of OpenZiti to delete the identity
  makes the deletion fail.
\<close>

theorem delete_own_device_only:
  assumes "quiet E" and "schema_ok (db w)" and "stored_ok (db w)"
    and "identityIDFromContext E c = Inr i" and "parseUUID E s = Inr k" and "DeleteDevice E c s w = Some (r, w')"
  shows "db w' = db w\<lparr>user_devices := filter (\<lambda>v. \<not> (d_id v = k \<and> d_identity_id v = i)) (user_devices (db w))\<rparr>
    \<and> r = (if \<exists>v \<in> set (user_devices (db w)). d_id v = k \<and> d_identity_id v = i then Inr ()
        else Inl (Status CodeNotFound ''device not found''))"
proof -
  obtain q w1 where q: "store_DeleteDevice E i k w = Some (q, w1)"
    using returnsD [OF returns_store(17)] by blast
  have "reads_keep E (\<lambda>x. ())" by (simp add: reads_keep_def)
  note removed = quiet_remove_device [OF assms(1) this assms(2,3) q]
  show ?thesis
    using assms(4-6) q removed
    by (cases q) (auto simp: DeleteDevice_def caller_def call_def attempt_def ext_call_run toStatusError_def
        NotFound_def not_found_message_def)
qed

section \<open>Witnesses\<close>

text \<open>The small outside world with the list of the OpenZiti identities; a new id is longer than all there are.\<close>

fun new_identity :: "create_device_identity_request \<Rightarrow> nat \<times> string list
    \<Rightarrow> (go_err + create_device_identity_response) \<times> (nat \<times> string list)" where
  "new_identity req (x, zs) =
    (let z = CHR ''z'' # concat zs in (Inr \<lparr>cd_ziti_identity_id = z, cd_enrollment_jwt = ''jwt''\<rparr>, (x, z # zs)))"

fun drop_identity :: "string \<Rightarrow> nat \<times> string list \<Rightarrow> (go_err + unit) \<times> (nat \<times> string list)" where
  "drop_identity z (x, zs) = (Inr (), (x, filter (\<lambda>y. y \<noteq> z) zs))"

definition demo_identities :: "(nat \<times> string list) env" where
  "demo_identities = demo_with (\<lambda>req x. (Inr (), x)) new_identity drop_identity"

definition one_identity :: "(nat \<times> string list) world" where
  "one_identity = \<lparr>db = one_device, ext = (9, [''z7''])\<rparr>"

lemma length_in_concat: "z \<in> set zs \<Longrightarrow> length z \<le> length (concat zs)"
  by (induction zs) auto

lemma longer_than_all: "CHR ''z'' # concat zs \<notin> set zs"
  using length_in_concat [of "CHR ''z'' # concat zs" zs] by auto

lemma demo_identities_quiet: "quiet demo_identities"
  by (simp add: demo_identities_def demo_with_quiet)

lemma demo_identities_track: "ziti_tracks demo_identities (set \<circ> snd)"
  using longer_than_all
  by (auto simp: ziti_tracks_def reads_keep_def demo_identities_def demo_with_def Let_def)

lemma one_identity_backed: "backed (set \<circ> snd) one_identity"
  by (simp add: backed_def device_ids_def one_identity_def one_device_def)

lemma one_identity_ok: "schema_ok (db one_identity)" "stored_ok (db one_identity)"
  by (simp_all add: one_identity_def one_device_ok)

theorem devices_and_identities_paired_witness:
  "\<exists>resp w'. CreateDevice demo_identities (as_user ''1'') ''phone'' one_identity = Some (Inr resp, w')
    \<and> backed (set \<circ> snd) w' \<and> length (device_ids (db w')) = 2"
proof -
  have "case CreateDevice demo_identities (as_user ''1'') ''phone'' one_identity of
      Some (Inr r, w) \<Rightarrow> length (device_ids (db w)) = 2 | _ \<Rightarrow> False"
    by code_simp
  then obtain resp w' where run: "CreateDevice demo_identities (as_user ''1'') ''phone'' one_identity = Some (Inr resp, w')"
      and two: "length (device_ids (db w')) = 2"
    by (auto split: option.splits prod.splits sum.splits)
  have never: "s_fault (session_of demo_identities u) \<noteq> FaultAfter msg" for u msg
    using demo_identities_quiet [unfolded quiet_def, rule_format, of "ext u"] by (simp add: session_of_def)
  from devices_and_identities_paired [OF quiet_alone [OF demo_identities_quiet] demo_identities_track one_identity_ok
      one_identity_backed, THEN conjunct1, rule_format, OF run] never
  have "backed (set \<circ> snd) w'" by blast
  with run two show ?thesis by blast
qed

theorem missing_token_leaves_identity_witness:
  "CreateDevice (demo\<lparr>e_create_device_identity := \<lambda>c req x. (Inr \<lparr>cd_ziti_identity_id = ''z1'', cd_enrollment_jwt = []\<rparr>, x)\<rparr>)
      (as_user ''1'') ''phone'' fresh
    = Some (Inl (Status CodeInternal ''create device identity: missing enrollment jwt''), fresh)"
proof -
  let ?E = "demo\<lparr>e_create_device_identity := \<lambda>c req x. (Inr \<lparr>cd_ziti_identity_id = ''z1'', cd_enrollment_jwt = []\<rparr>, x)\<rparr>"
  have i: "identityIDFromContext ?E (as_user ''1'') = Inr 1" by code_simp
  have "case userGroupRoleAttributes ?E (as_user ''1'') 1 fresh of Some (Inr a, w) \<Rightarrow> db w = empty_database \<and> ext w = 5 | _ \<Rightarrow> False"
    by code_simp
  then obtain attrs where a: "userGroupRoleAttributes ?E (as_user ''1'') 1 fresh = Some (Inr attrs, fresh)"
    by (auto simp: fresh_def split: option.splits prod.splits sum.splits)
  have "CreateDevice ?E (as_user ''1'') ''phone'' fresh
      = Some (Inl (Status CodeInternal ''create device identity: missing enrollment jwt''), fresh\<lparr>ext := ext fresh\<rparr>)"
    by (rule missing_token_leaves_identity [OF i _ a, where z = "\<lparr>cd_ziti_identity_id = ''z1'', cd_enrollment_jwt = []\<rparr>"]) simp_all
  then show ?thesis by simp
qed

theorem delete_own_device_only_witness:
  "\<exists>w'. DeleteDevice demo_identities (as_user ''1'') ''7'' one_identity = Some (Inr (), w') \<and> user_devices (db w') = []"
proof -
  have "case DeleteDevice demo_identities (as_user ''1'') ''7'' one_identity of Some (Inr r, w) \<Rightarrow> True | _ \<Rightarrow> False"
    by code_simp
  then obtain w' where run: "DeleteDevice demo_identities (as_user ''1'') ''7'' one_identity = Some (Inr (), w')"
    by (auto split: option.splits prod.splits sum.splits)
  have i: "identityIDFromContext demo_identities (as_user ''1'') = Inr 1" by code_simp
  have k: "parseUUID demo_identities ''7'' = Inr 7" by code_simp
  from delete_own_device_only [OF demo_identities_quiet one_identity_ok i k run] run
  show ?thesis by (simp add: one_identity_def one_device_def)
qed

end
