(* ===== verification/Liveness_Facts.thy ===== *)
theory Liveness_Facts
  imports Sync_Facts
begin

text \<open>
  What a liveness poll records of one device, and what a poll of all devices leaves alone.
\<close>

section \<open>One device\<close>

lemma quiet_update_device:
  assumes "quiet E"
  shows "\<exists>q w'. store_UpdateDeviceLiveness E input w = Some (q, w')
    \<and> db w' = db w\<lparr>user_devices := map (\<lambda>v. if d_id v = dli_ID input then device_liveness_set E input v else v) (user_devices (db w))\<rparr>
    \<and> (liveness_values input \<longrightarrow> dli_ID input \<in> set (map d_id (user_devices (db w))) \<longrightarrow> (\<exists>d. q = Inr d))"
proof -
  let ?set = "device_liveness_set E input"
  let ?rows = "map ?set (filter (\<lambda>v. d_id v = dli_ID input) (user_devices (db w)))"
  have scan: "\<exists>d. scanDevice (?set v) = Inr d" if "liveness_values input" for v
    using that by (auto simp: liveness_values_def device_liveness_set_def scanDevice_def)
  have "\<exists>d. (case ?rows of [] \<Rightarrow> Inl ErrNoRows | r # _ \<Rightarrow> scanDevice r) = Inr d"
    if "liveness_values input" "dli_ID input \<in> set (map d_id (user_devices (db w)))"
  proof -
    have "?rows \<noteq> []" using that(2) by (auto simp: filter_empty_conv)
    then obtain v vs where "filter (\<lambda>v. d_id v = dli_ID input) (user_devices (db w)) = v # vs"
      by (cases "filter (\<lambda>v. d_id v = dli_ID input) (user_devices (db w))") auto
    with scan [OF that(1), of v] show ?thesis by simp
  qed
  then show ?thesis
    by (auto simp: store_UpdateDeviceLiveness_def quiet_query_row [OF assms] sql_update_device_def)
qed

text \<open>
  C25. What one poll does to a device, by what OpenZiti answers. An unknown enrollment state is an error and
  changes nothing; an offline device with nothing new is not written; in every other case exactly the four
  liveness fields of exactly that device are written: the new status and connectivity, the enrollment time
  if it was unset and the device is enrolled now and the old one otherwise, and the time of the poll as
  the last time seen if the device is online and the old one otherwise.
\<close>

theorem poll_records:
  assumes "quiet E" and "v \<in> set (user_devices (db w))" and "scanDevice v = Inr d" and "dev_OpenZitiIdentityID d \<noteq> []"
    and "e_identity_liveness E c (dev_OpenZitiIdentityID d) (ext w) = (Inr answer, x)"
  shows "\<exists>r w'. pollDeviceLiveness E c d w = Some (r, w') \<and> (case deviceStatusFromZiti (lv_enrollment_state answer) of
      Inl err \<Rightarrow> r = Inl err \<and> w' = w\<lparr>ext := x\<rparr>
    | Inr status \<Rightarrow> r = Inr () \<and> (let online = lv_has_edge_router_connection answer; now = fst (e_now E x) in
        if \<not> online \<and> status = d_status v \<and> d_connectivity v = DeviceConnectivityOffline then w' = w\<lparr>ext := x\<rparr>
        else db w' = db w\<lparr>user_devices := map (\<lambda>u. if d_id u = d_id v then u\<lparr>
            d_status := status,
            d_connectivity := (if online then DeviceConnectivityOnline else DeviceConnectivityOffline),
            d_enrolled_at := map_option (e_db_time E)
              (if d_enrolled_at v = None \<and> status = DeviceStatusEnrolled then Some now else d_enrolled_at v),
            d_last_seen_at := map_option (e_db_time E) (if online then Some now else d_last_seen_at v)\<rparr> else u)
          (user_devices (db w))\<rparr>))"
proof -
  let ?online = "lv_has_edge_router_connection answer" and ?now = "fst (e_now E x)"
  let ?conn = "deviceConnectivityFromZiti ?online"
  have d: "dev_ID d = d_id v" "dev_Status d = d_status v" "dev_Connectivity d = d_connectivity v"
    "dev_EnrolledAt d = d_enrolled_at v" "dev_LastSeenAt d = d_last_seen_at v"
    using assms(3) by (auto simp: scanDevice_def split: if_splits)
  have conn: "?conn = DeviceConnectivityOffline \<longleftrightarrow> \<not> ?online" "?conn = DeviceConnectivityOnline \<longleftrightarrow> ?online"
    by (simp_all add: deviceConnectivityFromZiti_def DeviceConnectivityOnline_def DeviceConnectivityOffline_def)
  show ?thesis
  proof (cases "deviceStatusFromZiti (lv_enrollment_state answer)")
    case (Inl err)
    then show ?thesis
      using assms(4,5) by (simp add: pollDeviceLiveness_def call_def attempt_def ext_call_def)
  next
    case (Inr status)
    show ?thesis
    proof (cases "status = d_status v \<and> ?conn = d_connectivity v \<and> ?conn = DeviceConnectivityOffline")
      case True
      then show ?thesis
        using assms(4,5) Inr d conn by (auto simp: pollDeviceLiveness_def call_def attempt_def ext_call_def)
    next
      case False
      let ?input = "liveness_input d status ?conn ?now" and ?w = "w\<lparr>ext := snd (e_now E x)\<rparr>"
      have "liveness_values ?input"
        using Inr by (cases "lv_enrollment_state answer")
          (auto simp: liveness_values_def liveness_input_def deviceStatusFromZiti_def deviceConnectivityFromZiti_def)
      moreover have "dli_ID ?input \<in> set (map d_id (user_devices (db ?w)))"
        using assms(2) by (simp add: liveness_input_def d)
      ultimately obtain d' w' where stored: "store_UpdateDeviceLiveness E ?input ?w = Some (Inr d', w')"
          and w': "db w' = db ?w\<lparr>user_devices := map (\<lambda>v. if d_id v = dli_ID ?input then device_liveness_set E ?input v else v)
            (user_devices (db ?w))\<rparr>"
        using quiet_update_device [OF assms(1), of ?input ?w] by blast
      have "pollDeviceLiveness E c d w = Some (Inr (), w')"
        using assms(4,5) Inr False stored d
        by (auto simp: pollDeviceLiveness_def call_def attempt_def ext_call_def ext_value_run Let_def)
      moreover have no: "\<not> (\<not> ?online \<and> status = d_status v \<and> d_connectivity v = DeviceConnectivityOffline)"
        using False conn by auto
      moreover have "device_liveness_set E ?input u = u\<lparr>d_status := status,
            d_connectivity := (if ?online then DeviceConnectivityOnline else DeviceConnectivityOffline),
            d_enrolled_at := map_option (e_db_time E)
              (if d_enrolled_at v = None \<and> status = DeviceStatusEnrolled then Some ?now else d_enrolled_at v),
            d_last_seen_at := map_option (e_db_time E) (if ?online then Some ?now else d_last_seen_at v)\<rparr>" for u
        unfolding device_liveness_set_def liveness_input_def update_device_liveness_input.select_convs d
          deviceConnectivityFromZiti_def
        by (simp add: DeviceConnectivityOnline_def DeviceConnectivityOffline_def)
      moreover have "dli_ID ?input = d_id v" by (simp add: liveness_input_def d)
      ultimately show ?thesis
        using w' unfolding Let_def Inr sum.case if_not_P [OF no] by (intro exI [of _ "Inr ()"] exI [of _ w']) simp
    qed
  qed
qed

section \<open>All devices\<close>

definition device_core :: "device_row \<Rightarrow> uuid \<times> uuid \<times> string \<times> string \<times> string option \<times> time" where
  "device_core v = (d_id v, d_identity_id v, d_name v, d_openziti_identity_id v, d_enrollment_jwt v, d_created_at v)"

definition liveness_only :: "'x world \<Rightarrow> 'x world \<Rightarrow> bool" where
  "liveness_only w w' \<longleftrightarrow> users (db w') = users (db w) \<and> user_api_tokens (db w') = user_api_tokens (db w)
    \<and> map device_core (user_devices (db w')) = map device_core (user_devices (db w))"

interpretation polled: state_preorder liveness_only
  by unfold_locales (auto simp: liveness_only_def)

lemma same_polled: "within tables_same m \<Longrightarrow> within liveness_only m"
  by (auto simp: within_def tables_same_def liveness_only_def)

lemma polled_update:
  assumes "quiet E"
  shows "within liveness_only (store_UpdateDeviceLiveness E input)"
  unfolding within_def
proof (intro allI impI)
  fix w r w'
  assume "store_UpdateDeviceLiveness E input w = Some (r, w')"
  with quiet_update_device [OF assms, of input w]
  have "db w' = db w\<lparr>user_devices := map (\<lambda>v. if d_id v = dli_ID input then device_liveness_set E input v else v) (user_devices (db w))\<rparr>"
    by auto
  then show "liveness_only w w'"
    by (auto simp: liveness_only_def device_core_def device_liveness_set_def)
qed

lemma polled_all:
  assumes "quiet E"
  shows "within liveness_only (PollDeviceLiveness E c)"
proof -
  have one: "within liveness_only (pollDeviceLiveness E c d)" for d
    unfolding pollDeviceLiveness_def Let_def
    by (intro polled.within_rules same_polled [OF same_ext_call] same_polled [OF same_ext_value] polled_update assms)
  have list: "within liveness_only (listAllUserDevices E i)" for i
    by (intro same_polled same_listAllUserDevices assms)
  have users: "within liveness_only (store_ListUsers E n cursor)" for n cursor
    unfolding store_pages by (intro same_polled user_pages.same_fetch assms)
  show ?thesis
    unfolding PollDeviceLiveness_def poll_user_def
    by (intro within_page_loop polled.state_preorder_axioms polled.within_rules users list one)
qed

text \<open>
  C26. A poll of all devices, however often OpenZiti fails in between, changes nothing but the four liveness
  fields of devices: no user, no token, no device's owner, name, identity or enrollment token, and no
  device comes or goes.
\<close>

theorem poll_changes_liveness_only:
  assumes "quiet E" and "PollDeviceLiveness E c w = Some (r, w')"
  shows "users (db w') = users (db w) \<and> user_api_tokens (db w') = user_api_tokens (db w)
    \<and> map device_core (user_devices (db w')) = map device_core (user_devices (db w))"
  using polled_all [OF assms(1)] assms(2) by (auto simp: within_def liveness_only_def)

section \<open>Witnesses\<close>

definition device_world :: "nat world" where
  "device_world = \<lparr>db = one_device, ext = 5\<rparr>"

theorem poll_records_witness:
  "\<exists>d r w'. pollDeviceLiveness demo background d device_world = Some (r, w')
    \<and> map d_connectivity (user_devices (db w')) = [''online''] \<and> map d_last_seen_at (user_devices (db w')) = [Some 5]"
proof -
  let ?v = "hd (user_devices one_device)"
  obtain d where d: "scanDevice ?v = Inr d" "dev_OpenZitiIdentityID d = ''z7''"
    by (simp add: one_device_def scanDevice_def DeviceStatusEnrolled_def DeviceConnectivityOffline_def)
  have v: "?v \<in> set (user_devices (db device_world))" by (simp add: device_world_def one_device_def)
  have a: "e_identity_liveness demo background (dev_OpenZitiIdentityID d) (ext device_world)
      = (Inr \<lparr>lv_enrollment_state = ENROLLMENT_STATE_ENROLLED, lv_has_edge_router_connection = True\<rparr>, 5)"
    by (simp add: demo_def device_world_def)
  from poll_records [OF demo_quiet v d(1) _ a] d(2) show ?thesis
    by (auto simp: deviceStatusFromZiti_def device_world_def one_device_def demo_def DeviceConnectivityOnline_def intro!: exI [of _ d])
qed

theorem poll_changes_liveness_only_witness:
  "\<exists>r w'. PollDeviceLiveness demo background device_world = Some (r, w') \<and> users (db w') = users one_device"
proof -
  obtain r w' where run: "PollDeviceLiveness demo background device_world = Some (r, w')"
    using returnsD [OF returns_poll] by blast
  from poll_changes_liveness_only [OF demo_quiet run] run show ?thesis by (simp add: device_world_def)
qed

end
