(* ===== verification/Directory_Facts.thy ===== *)
theory Directory_Facts
  imports User_Changes "HOL-Library.Multiset"
begin

text \<open>
  What the directory methods promise when nobody else writes: which entries a search finds and in which
  order, and that the pages of a listing, followed by their tokens, hold every user once.
\<close>

section \<open>Sorting by a comparison\<close>

lemma mset_insert_by [simp]: "mset (insert_by le x xs) = add_mset x (mset xs)"
  by (induction xs) auto

lemma mset_sort_by [simp]: "mset (sort_by le xs) = mset xs"
  by (induction xs) (auto simp: sort_by_def)

text \<open>What comes before everything else, and never after anything, comes first.\<close>

lemma hd_insert_by:
  "xs \<noteq> [] \<Longrightarrow> hd (insert_by le x xs) = (if le x (hd xs) then x else hd xs)"
  by (cases xs) auto

lemma hd_sort_by:
  "r \<in> set xs \<Longrightarrow> (\<And>y. y \<in> set xs \<Longrightarrow> y \<noteq> r \<Longrightarrow> le r y \<and> \<not> le y r) \<Longrightarrow> hd (sort_by le xs) = r"
proof (induction xs)
  case (Cons x xs)
  have step: "sort_by le (x # xs) = insert_by le x (sort_by le xs)" by (simp add: sort_by_def)
  show ?case
  proof (cases "sort_by le xs = []")
    case True
    then have "xs = []" by (metis mset_sort_by mset_zero_iff)
    with Cons.prems(1) show ?thesis by (simp add: sort_by_def)
  next
    case False
    then have h: "hd (sort_by le xs) \<in> set xs" using set_sort_by hd_in_set by metis
    show ?thesis
    proof (cases "r \<in> set xs")
      case True
      then have "hd (sort_by le xs) = r" using Cons by simp
      moreover have "x \<noteq> r \<Longrightarrow> \<not> le x r" using Cons.prems(2) by simp
      ultimately show ?thesis unfolding step by (auto simp: hd_insert_by [OF False])
    next
      case False
      then have "x = r" "le r (hd (sort_by le xs))" using Cons.prems h by auto
      then show ?thesis unfolding step by (simp add: hd_insert_by [OF \<open>sort_by le xs \<noteq> []\<close>])
    qed
  qed
qed simp

section \<open>Searching\<close>

text \<open>The users a search for a prefix is about, and their entries.\<close>

definition has_username_prefix :: "string \<Rightarrow> user_row \<Rightarrow> bool" where
  "has_username_prefix p r \<longleftrightarrow> (\<exists>n. u_username r = Some n \<and> n \<noteq> [] \<and> prefix p n)"

definition entry_of :: "'x env \<Rightarrow> user_row \<Rightarrow> proto_user_directory_entry" where
  "entry_of E r = \<lparr>pude_IdentityId = e_uuid_string E (u_identity_id r), pude_Username = the (u_username r),
    pude_Name = u_name r, pude_PhotoUrl = u_photo_url r\<rparr>"

lemma matching_rows:
  "filter (\<lambda>r. case u_username r of None \<Rightarrow> False | Some n \<Rightarrow> n \<noteq> [] \<and> like (escapeLikePattern p @ ''%'') n) rows
    = filter (has_username_prefix p) rows"
  by (rule filter_cong) (auto simp: has_username_prefix_def like_escaped split: option.split)

lemma collate_search_before:
  assumes "\<And>a b. collate a b \<or> collate b a" and "\<And>a b c. collate a b \<Longrightarrow> collate b c \<Longrightarrow> collate a c"
  shows "search_before collate p r s \<or> search_before collate p s r"
    and "search_before collate p r s \<Longrightarrow> search_before collate p s t \<Longrightarrow> search_before collate p r t"
proof -
  let ?a = "the (u_username r)" and ?b = "the (u_username s)" and ?c = "the (u_username t)"
  show "search_before collate p r s \<or> search_before collate p s r"
    using assms(1) [of ?a ?b] by (auto simp: search_before_def Let_def)
  show "search_before collate p r s \<Longrightarrow> search_before collate p s t \<Longrightarrow> search_before collate p r t"
    using assms(2) [of ?a ?b ?c] by (auto simp: search_before_def Let_def split: if_splits)
qed

lemma usernames_unique:
  "distinct (usernames rows) \<Longrightarrow> r \<in> set rows \<Longrightarrow> y \<in> set rows \<Longrightarrow> u_username r = Some n
    \<Longrightarrow> u_username y = Some n \<Longrightarrow> y = r"
proof (induction rows)
  case (Cons a rows)
  have "n \<in> set (usernames rows)" if "z \<in> set rows" "u_username z = Some n" for z
    using that by (auto simp: usernames_def intro!: bexI [of _ z])
  with Cons show ?case by (auto simp: usernames_def)
qed simp

text \<open>
  C24. A search answers with directory entries of existing users whose name starts with the prefix, taken
  as plain text: at most as many as were asked for, ten if none were, never more than twenty; a user
  whose name is exactly the prefix comes first, the others in the order of the database's collation; and
  when everybody fits, nobody is missing.
\<close>

theorem search_finds:
  assumes "quiet E" and "schema_ok (db w)" and "SearchUsers E c req w = Some (Inr entries, w')"
    and "\<forall>a b. e_collate E a b \<or> e_collate E b a" and "\<forall>a b d. e_collate E a b \<longrightarrow> e_collate E b d \<longrightarrow> e_collate E a d"
  shows "\<exists>rows limit. limit = (if sur_Limit req = 0 then usernameSearchDefault else sur_Limit req)
    \<and> 0 < sint limit \<and> sint limit \<le> sint usernameSearchMax
    \<and> mset rows = filter_mset (has_username_prefix (sur_Prefix req)) (mset (users (db w)))
    \<and> sorted_wrt (search_before (e_collate E) (sur_Prefix req)) rows
    \<and> (\<forall>r \<in> set rows. u_username r = Some (sur_Prefix req) \<longrightarrow> hd rows = r)
    \<and> entries = map (entry_of E) (take (nat (sint limit)) rows) \<and> db w' = db w"
proof -
  let ?p = "sur_Prefix req" and ?limit = "if sur_Limit req = 0 then usernameSearchDefault else sur_Limit req"
  let ?rows = "sort_by (search_before (e_collate E) ?p) (filter (has_username_prefix ?p) (users (db w)))"
  have bounds: "\<not> sint ?limit < 0" "\<not> sint ?limit > sint usernameSearchMax"
    and store: "\<exists>es. store_SearchUsers E ?p ?limit w = Some (Inr es, w') \<and> entries = map (toProtoDirectoryEntry E) es"
    using assms(3) unfolding SearchUsers_def caller_def Let_def
    by (auto simp: call_Inr_iff split: if_splits sum.splits)
  have scanned: "\<exists>e. scanUserDirectoryEntry r = Inr e \<and> toProtoDirectoryEntry E e = entry_of E r"
    if "has_username_prefix ?p r" for r
    using that by (auto simp: has_username_prefix_def scanUserDirectoryEntry_def toProtoDirectoryEntry_def entry_of_def)
  have all: "map_result scanUserDirectoryEntry rs = Inr (map (projr \<circ> scanUserDirectoryEntry) rs)
      \<and> map (toProtoDirectoryEntry E \<circ> (projr \<circ> scanUserDirectoryEntry)) rs = map (entry_of E) rs"
    if "\<forall>r \<in> set rs. has_username_prefix ?p r" for rs
    using that scanned by (induction rs) fastforce+
  have "\<forall>r \<in> set (take (nat (sint ?limit)) ?rows). has_username_prefix ?p r"
    by (auto dest: in_set_takeD)
  from all [OF this] have "entries = map (entry_of E) (take (nat (sint ?limit)) ?rows)" and "db w' = db w"
    using store bounds(1)
    by (auto simp: store_SearchUsers_def quiet_query [OF assms(1)] sql_search_users_def matching_rows)
  moreover have "sorted_wrt (search_before (e_collate E) ?p) ?rows"
    by (rule sorted_sort_by) (use collate_search_before [of "e_collate E"] assms(4,5) in blast)+
  moreover have "hd ?rows = r" if r: "r \<in> set ?rows" "u_username r = Some ?p" for r
  proof (rule hd_sort_by)
    show "r \<in> set (filter (has_username_prefix ?p) (users (db w)))" using r(1) by simp
  next
    fix y
    assume y: "y \<in> set (filter (has_username_prefix ?p) (users (db w)))" "y \<noteq> r"
    have "distinct (usernames (users (db w)))" using assms(2) by (simp add: schema_ok_def users_ok_def)
    then have "u_username y \<noteq> Some ?p"
      using y r usernames_unique [of "users (db w)" r y ?p] by auto
    then show "search_before (e_collate E) ?p r y \<and> \<not> search_before (e_collate E) ?p y r"
      using y r(2) by (auto simp: search_before_def Let_def has_username_prefix_def)
  qed
  moreover have "0 < sint ?limit"
    using bounds(1) by (auto simp: usernameSearchDefault_def not_less le_less signed_eq_0_iff split: if_splits)
  ultimately show ?thesis
    using bounds(2) by (intro exI [of _ ?rows] exI [of _ ?limit]) (simp add: mset_filter not_less)
qed

section \<open>Listing page by page\<close>

text \<open>
  A client that lists the users: the page for a token, and the token of the next page unless it is empty.
\<close>

definition user_page ::
  "'x env \<Rightarrow> ctx \<Rightarrow> int32 \<Rightarrow> string option \<Rightarrow> ('x world, proto_user list \<times> string option) go" where
  "user_page E c sz token =
    call (ListUsers E c \<lparr>lr_PageSize = sz, lr_PageToken = (case token of None \<Rightarrow> [] | Some t \<Rightarrow> t)\<rparr>) id (\<lambda>page.
    ret (fst page, if snd page = [] then None else Some (snd page)))"

text \<open>Where a token stands in the listing.\<close>

definition token_cursor :: "'x env \<Rightarrow> string option \<Rightarrow> page_cursor option" where
  "token_cursor E token =
    (case token of None \<Rightarrow> None
     | Some t \<Rightarrow> (case decodePageCursor E t of Inl err \<Rightarrow> None | Inr cursor \<Rightarrow> cursor))"

definition users_from :: "'x env \<Rightarrow> database \<Rightarrow> string option \<Rightarrow> proto_user list" where
  "users_from E d token = map (\<lambda>r. toProtoUser E (projr (scanUser r)))
    (rows_after users_table u_identity_id (\<lambda>_. True) d (token_cursor E token))"

lemma same_admin: "within tables_same (requireClusterAdmin E c)"
  unfolding requireClusterAdmin_def checkClusterAdmin_def by (intro same.within_rules same_ext_call)

lemma returns_ListUsers: "returns (ListUsers E c req)"
  unfolding ListUsers_def
  by (rule returns_call [OF returns_auth(2) returns_call [OF returns_lift returns_call [OF returns_store(8)
          returns_need [OF mapListResult_total]]]]) simp

lemma all_some_map: "all_some (map (\<lambda>x. Some (f x)) xs) = Some (map f xs)"
  by (induction xs) simp_all

lemma user_page_Inr:
  assumes "uuid_codec E" and "\<And>i. e_uuid_string E i \<noteq> []"
    and "user_page E c sz token w = Some (Inr (us, next), w')"
  obtains items n w1 where "db w1 = db w"
    "listEntities E users_table (''SELECT '' @ userColumns @ '' FROM users'') ''identity_id'' [] [] sz scanUser
       (\<lambda>u. meta_ID (usr_Meta u)) (token_cursor E token) w1 = Some (Inr (items, n), w')"
    "us = map (toProtoUser E) items" "token_cursor E next = n" "next = None \<longleftrightarrow> n = None"
proof -
  let ?t = "case token of None \<Rightarrow> [] | Some t \<Rightarrow> t"
  obtain page where list: "ListUsers E c \<lparr>lr_PageSize = sz, lr_PageToken = ?t\<rparr> w = Some (Inr page, w')"
      and page: "us = fst page" "next = (if snd page = [] then None else Some (snd page))"
    using assms(3) by (auto simp: user_page_def call_Inr_iff)
  obtain i w1 cursor result where admin: "requireClusterAdmin E c w = Some (Inr i, w1)"
      and cursor: "decodePageCursor E ?t = Inr cursor"
      and result: "store_ListUsers E sz cursor w1 = Some (Inr result, w')"
      and mapped: "mapListResult E (fst result) (snd result) (\<lambda>u. Some (toProtoUser E u)) = Some page"
    using list unfolding ListUsers_def list_request.select_convs
    by (elim callE) (auto simp: need_def)
  have "token_cursor E token = cursor"
    using cursor by (cases token) (auto simp: token_cursor_def decodePageCursor_def)
  moreover have "page = (map (toProtoUser E) (fst result),
      case snd result of None \<Rightarrow> [] | Some k \<Rightarrow> EncodePageToken E (AfterID k))"
    using mapped by (auto simp: mapListResult_def all_some_map split: option.splits)
  moreover have "EncodePageToken E k \<noteq> []" "DecodePageToken E (EncodePageToken E k) = Inr k" for k
    using decode_encode_token [OF assms(1,2)] assms(2) by (simp_all add: EncodePageToken_def b64_encode_eq_Nil)
  ultimately show thesis
    using result page unfolding store_pages
    by (intro that [of w1 "fst result" "snd result"] same_db [OF same_admin admin])
      (auto simp: token_cursor_def decodePageCursor_def split: option.splits)
qed

text \<open>The pages are a listing in the sense of the store's interface, with tokens for cursors.\<close>

lemma user_page_listing:
  assumes "uuid_codec E" and "\<And>i. e_uuid_string E i \<noteq> []"
  shows "page_listing (user_page E c sz) (\<lambda>t. cursor_left (token_cursor E t)) (\<lambda>w. users_from E (db w))
    (\<lambda>w. quiet E \<and> schema_ok (db w))"
proof
  show "returns (user_page E c sz t)" for t
    unfolding user_page_def by (intro returns_call returns_ListUsers returns_ret)
next
  fix t w us t' w'
  assume "user_page E c sz t w = Some (Inr (us, Some t'), w')"
  then obtain items n w1 where "listEntities E users_table (''SELECT '' @ userColumns @ '' FROM users'') ''identity_id'' [] [] sz scanUser
       (\<lambda>u. meta_ID (usr_Meta u)) (token_cursor E t) w1 = Some (Inr (items, n), w')"
      "token_cursor E (Some t') = n" "n \<noteq> None"
    by (rule user_page_Inr [OF assms]) auto
  then show "cursor_left (token_cursor E (Some t')) < cursor_left (token_cursor E t)"
    using user_pages.fetch_advances by auto
next
  fix w t r w'
  assume ok: "quiet E \<and> schema_ok (db w)" and run: "user_page E c sz t w = Some (r, w')"
  have "within tables_same (user_page E c sz t)"
    unfolding user_page_def ListUsers_def store_pages
    by (intro same.within_rules same_admin user_pages.same_fetch) (use ok in simp)
  then have "db w' = db w" using run by (rule same_db)
  then show "(quiet E \<and> schema_ok (db w')) \<and> users_from E (db w') = users_from E (db w)" using ok by simp
next
  fix w t us n w'
  assume ok: "quiet E \<and> schema_ok (db w)" and run: "user_page E c sz t w = Some (Inr (us, n), w')"
  obtain items k w1 where w1: "db w1 = db w"
    and list: "listEntities E users_table (''SELECT '' @ userColumns @ '' FROM users'') ''identity_id'' [] [] sz scanUser
       (\<lambda>u. meta_ID (usr_Meta u)) (token_cursor E t) w1 = Some (Inr (items, k), w')"
    and us: "us = map (toProtoUser E) items" and k: "token_cursor E n = k" "n = None \<longleftrightarrow> k = None"
    by (rule user_page_Inr [OF assms run])
  have "map (\<lambda>r. projr (scanUser r)) (rows_after users_table u_identity_id (\<lambda>_. True) (db w) (token_cursor E t))
    = items @ (case k of None \<Rightarrow> []
        | Some c \<Rightarrow> map (\<lambda>r. projr (scanUser r)) (rows_after users_table u_identity_id (\<lambda>_. True) (db w) (Some c)))"
    using user_pages.quiet_page [OF conjunct1 [OF ok] _ list, unfolded w1, OF conjunct2 [OF ok]] .
  from arg_cong [OF this, of "map (toProtoUser E)"]
  show "users_from E (db w) t = us @ (case n of None \<Rightarrow> [] | Some t' \<Rightarrow> users_from E (db w) (Some t'))"
    using k us by (auto simp: users_from_def comp_def split: option.splits)
qed

text \<open>Where an error of the listing comes from: of a page that was asked for by a token of the service's own.\<close>

context page_listing begin

lemma loop_fails:
  assumes advance: "\<And>t w xs t' w'. good t \<Longrightarrow> fetch t w = Some (Inr (xs, Some t'), w') \<Longrightarrow> good (Some t')"
  shows "page_loop fetch wrap (\<lambda>acc xs. ret (acc @ xs)) acc t w = Some (Inl err, w') \<Longrightarrow> ok w \<Longrightarrow> good t
    \<Longrightarrow> \<exists>t w e. good t \<and> ok w \<and> fetch t w = Some (Inl e, w') \<and> err = wrap e"
proof (induction "left t" arbitrary: t acc w rule: less_induct)
  case less
  from less.prems(1) show ?case
  proof (cases rule: page_loop_Some)
    case (fetch e)
    with less.prems show ?thesis by auto
  next
    case (more xs t' w1 acc' w2)
    have "ok w2" using fetch_ok [OF less.prems(2) more(1)] more(2) by simp
    with less.hyps [OF fetch_advances [OF more(1)] more(3)] advance [OF less.prems(3) more(1)] show ?thesis by blast
  qed simp_all
qed

end

context paged_table begin

lemma list_rows_fails: "list_rows limit scan idFunc rows items lastID = Inl err \<Longrightarrow> \<exists>r \<in> set rows. scan r = Inl err"
  by (induction rows arbitrary: items lastID) (auto split: if_splits sum.splits)

lemma quiet_fetch:
  assumes "quiet E" and scans: "\<And>r. \<exists>x. scan r = Inr x"
  shows "\<exists>page w'. listEntities E T baseQuery cursorColumn clauses vs sz scan idFunc cursor w = Some (Inr page, w')"
proof -
  let ?limit = "NormalizePageSize sz"
  obtain rows w1 where rows: "run_sql E (\<lambda>s. exec_select T (list_query baseQuery cursorColumn clauses vs cursor ?limit)) w
      = Some (Inr rows, w1)"
    by (simp add: quiet_run [OF assms(1)] query_means)
  have "list_rows ?limit scan idFunc rows [] 0 \<noteq> Inl err" for err
    using list_rows_fails [of ?limit rows "[]" 0 err] scans by (metis sum.distinct(1))
  then obtain page where "list_rows ?limit scan idFunc rows [] 0 = Inr page" by (metis sumE)
  with rows show ?thesis
    by (cases page) (simp add: listEntities_def Let_def call_ok)
qed

end

definition own_token :: "'x env \<Rightarrow> string option \<Rightarrow> bool" where
  "own_token E token \<longleftrightarrow> (case token of None \<Rightarrow> True | Some t \<Rightarrow> \<exists>i. t = EncodePageToken E i)"

lemma user_page_own_token:
  "user_page E c sz t w = Some (Inr (us, Some t'), w') \<Longrightarrow> own_token E (Some t')"
  by (auto simp: user_page_def ListUsers_def own_token_def mapListResult_def need_def
      elim!: callE split: if_splits option.splits)

lemma user_page_fails:
  assumes "uuid_codec E" and "\<And>i. e_uuid_string E i \<noteq> []" and "quiet E"
    and "own_token E t" and "user_page E c sz t w = Some (Inl err, w')"
  shows "requireClusterAdmin E c w = Some (Inl err, w')"
proof -
  obtain q w1 where admin: "requireClusterAdmin E c w = Some (q, w1)" using returnsD [OF returns_auth(2)] by blast
  show ?thesis
  proof (cases q)
    case (Inl e)
    with admin assms(5) show ?thesis by (simp add: user_page_def ListUsers_def call_err)
  next
    case (Inr i)
    have "\<exists>cursor. decodePageCursor E (case t of None \<Rightarrow> [] | Some t \<Rightarrow> t) = Inr cursor"
      using assms(4) decode_encode_token [OF assms(1,2)]
      by (auto simp: own_token_def decodePageCursor_def split: option.splits)
    then obtain cursor where cursor: "decodePageCursor E (case t of None \<Rightarrow> [] | Some t \<Rightarrow> t) = Inr cursor" by blast
    have "\<exists>x. scanUser r = Inr x" for r by (simp add: scanUser_def)
    from user_pages.quiet_fetch [OF assms(3) this]
    obtain page w2 where "store_ListUsers E sz cursor w1 = Some (Inr page, w2)"
      unfolding store_pages by blast
    moreover obtain out where "mapListResult E (fst page) (snd page) (\<lambda>u. Some (toProtoUser E u)) = Some out"
      using mapListResult_total by (metis not_None_eq option.distinct(1))
    ultimately show ?thesis
      using assms(5) admin Inr cursor by (simp add: user_page_def ListUsers_def call_def attempt_def need_def)
  qed
qed

text \<open>
  C23. Listing the users page by page, handing each page's token back for the next, with any page size, comes
  to an end, and has then shown every user exactly once, in the order of their ids. It fails only when the
  caller is not let in: no token the service hands out is refused, and no page is lost.
\<close>

theorem listing_complete:
  assumes "uuid_codec E" and "\<forall>i. e_uuid_string E i \<noteq> []" and "quiet E" and "schema_ok (db w)"
  shows "\<exists>r w'. page_loop (user_page E c sz) id (\<lambda>seen page. ret (seen @ page)) [] None w = Some (r, w')
    \<and> (case r of Inl err \<Rightarrow> \<exists>v. requireClusterAdmin E c v = Some (Inl err, w')
       | Inr seen \<Rightarrow> seen = map (\<lambda>r. toProtoUser E (projr (scanUser r))) (sort_key u_identity_id (users (db w))))"
proof -
  have listing: "page_listing (user_page E c sz) (\<lambda>t. cursor_left (token_cursor E t)) (\<lambda>w. users_from E (db w))
      (\<lambda>w. quiet E \<and> schema_ok (db w))"
    using assms(2) by (intro user_page_listing assms(1)) blast
  obtain r w' where run: "page_loop (user_page E c sz) id (\<lambda>seen page. ret (seen @ page)) [] None w = Some (r, w')"
  proof -
    have "returns (page_loop (user_page E c sz) id (\<lambda>seen page. ret (seen @ page)) [] None)"
      by (rule page_source.loop_returns [OF page_listing.axioms(1) [OF listing]]) (rule returns_ret)
    from returnsD [OF this] that show thesis by blast
  qed
  show ?thesis
  proof (cases r)
    case (Inl err)
    have "\<exists>t v e. own_token E t \<and> (quiet E \<and> schema_ok (db v)) \<and> user_page E c sz t v = Some (Inl e, w') \<and> err = id e"
      by (rule page_listing.loop_fails [OF listing _ run [unfolded Inl]])
        (use user_page_own_token assms(3,4) in \<open>auto simp: own_token_def\<close>)
    then obtain t v where "own_token E t" "user_page E c sz t v = Some (Inl err, w')" by auto
    then have "requireClusterAdmin E c v = Some (Inl err, w')"
      using assms(2) by (intro user_page_fails [OF assms(1) _ assms(3)]) auto
    with run Inl show ?thesis by auto
  next
    case (Inr seen)
    have "seen = users_from E (db w) None"
      using page_listing.loop_collects [OF listing run [unfolded Inr]] assms(3,4) by simp
    with run Inr show ?thesis
      by (intro exI [of _ r] exI [of _ w']) (simp add: users_from_def token_cursor_def rows_after_def users_table_def)
  qed
qed

section \<open>Witnesses\<close>

theorem search_finds_witness:
  "\<exists>es w'. SearchUsers demo (as_user ''1'') \<lparr>sur_Prefix = ''bo'', sur_Limit = 0\<rparr> signed_in = Some (Inr es, w')
    \<and> map pude_Username es = [''bob'']"
proof -
  let ?req = "\<lparr>sur_Prefix = ''bo'', sur_Limit = 0\<rparr>"
  have "case SearchUsers demo (as_user ''1'') ?req signed_in of Some (Inr es, w) \<Rightarrow> True | _ \<Rightarrow> False" by code_simp
  then obtain es w' where run: "SearchUsers demo (as_user ''1'') ?req signed_in = Some (Inr es, w')"
    by (auto split: option.splits prod.splits sum.splits)
  have ok: "schema_ok (db signed_in)" by code_simp
  have le: "\<forall>a b. e_collate demo a b \<or> e_collate demo b a"
    "\<forall>a b d. e_collate demo a b \<longrightarrow> e_collate demo b d \<longrightarrow> e_collate demo a d"
    by (auto simp: demo_def)
  obtain rows where "mset rows = filter_mset (has_username_prefix ''bo'') (mset (users (db signed_in)))"
      and "es = map (entry_of demo) (take (nat (sint usernameSearchDefault)) rows)"
    using search_finds [OF demo_quiet ok run le] by auto
  moreover have "filter_mset (has_username_prefix ''bo'') (mset (users (db signed_in))) = mset (users (db signed_in))"
    by (simp add: signed_in_def has_username_prefix_def)
  ultimately show ?thesis using run by (simp add: signed_in_def usernameSearchDefault_def entry_of_def)
qed

theorem listing_complete_witness:
  "\<exists>seen w'. page_loop (user_page demo (as_user ''1'') 1) id (\<lambda>seen page. ret (seen @ page)) [] None signed_in
      = Some (Inr seen, w')
    \<and> map pu_Username seen = [''bob'']"
proof -
  have ok: "schema_ok (db signed_in)" by code_simp
  have strings: "\<forall>i. e_uuid_string demo i \<noteq> []" using demo_string_not_Nil by blast
  obtain r w' where run: "page_loop (user_page demo (as_user ''1'') 1) id (\<lambda>seen page. ret (seen @ page)) [] None signed_in
        = Some (r, w')"
      and seen: "case r of Inl err \<Rightarrow> \<exists>v. requireClusterAdmin demo (as_user ''1'') v = Some (Inl err, w')
        | Inr seen \<Rightarrow> seen = map (\<lambda>r. toProtoUser demo (projr (scanUser r))) (sort_key u_identity_id (users (db signed_in)))"
    using listing_complete [OF demo_codec strings demo_quiet ok] by blast
  have "identityIDFromContext demo (as_user ''1'') = Inr 1" by code_simp
  moreover have "tk_user (admin_tuple demo 1) = ''identity:1''" by code_simp
  then have "e_check demo c (admin_tuple demo 1) x = (Inr True, x)" for c x by (simp add: demo_def)
  ultimately have "requireClusterAdmin demo (as_user ''1'') v = Some (Inr 1, v)" for v
    by (simp add: requireClusterAdmin_def checkClusterAdmin_def call_def attempt_def ext_call_run)
  with run seen show ?thesis
    by (auto simp: signed_in_def toProtoUser_def scanUser_def split: sum.splits)
qed

end
