(* ===== verification/Role_Facts.thy ===== *)
theory Role_Facts
  imports Sync_Facts User_Changes
begin

text \<open>
  The cluster role of a user, as the Authorization service keeps it: what \<open>UpdateUser\<close> and \<open>DeleteUser\<close>
  of \<open>internal/server/server.go\<close> leave in its store of tuples, and that the role reads back.
\<close>

text \<open>
  \<open>tuples x\<close> are the tuples the service holds in the outside state \<open>x\<close>: a check answers from them, a
  write that succeeds applies, one that fails does not; it fails with \<open>AlreadyExists\<close> only for a tuple that is
  there and with \<open>NotFound\<close> only for one that is not.
\<close>

definition authz_tracks :: "'x env \<Rightarrow> ('x \<Rightarrow> tuple_key set) \<Rightarrow> bool" where
  "authz_tracks E tuples \<longleftrightarrow> reads_keep E tuples
    \<and> (\<forall>c k x. tuples (snd (e_check E c k x)) = tuples x)
    \<and> (\<forall>c k x b. fst (e_check E c k x) = Inr b \<longrightarrow> b = (k \<in> tuples x))
    \<and> (\<forall>c req x x'. e_write E c req x = (Inr (), x') \<longrightarrow>
        tuples x' = tuples x \<union> set (wr_writes req) - set (wr_deletes req))
    \<and> (\<forall>c req x x' err. e_write E c req x = (Inl err, x') \<longrightarrow> tuples x' = tuples x
        \<and> (e_status_code E err = CodeAlreadyExists \<longrightarrow> set (wr_writes req) \<inter> tuples x \<noteq> {})
        \<and> (e_status_code E err = CodeNotFound \<longrightarrow> \<not> set (wr_deletes req) \<subseteq> tuples x))"

text \<open>The operations that have nothing to do with the Authorization service.\<close>

definition leaves_tuples :: "'x env \<Rightarrow> ('x \<Rightarrow> tuple_key set) \<Rightarrow> bool" where
  "leaves_tuples E tuples \<longleftrightarrow>
    (\<forall>n x. tuples (snd (e_rand_int E n x)) = tuples x) \<and> (\<forall>x. tuples (snd (e_uuid_new E x)) = tuples x)
    \<and> (\<forall>c req x. tuples (snd (e_register_identity E c req x)) = tuples x)"

lemma authz_reads: "authz_tracks E tuples \<Longrightarrow> reads_keep E tuples"
  by (simp add: authz_tracks_def)

lemma authz_write:
  assumes "authz_tracks E tuples" and "e_write E c req x = (r, x')"
  shows "case r of
      Inr _ \<Rightarrow> tuples x' = tuples x \<union> set (wr_writes req) - set (wr_deletes req)
    | Inl err \<Rightarrow> tuples x' = tuples x
        \<and> (e_status_code E err = CodeAlreadyExists \<longrightarrow> set (wr_writes req) \<inter> tuples x \<noteq> {})
        \<and> (e_status_code E err = CodeNotFound \<longrightarrow> \<not> set (wr_deletes req) \<subseteq> tuples x)"
  using assms by (cases r) (auto simp: authz_tracks_def)

lemma check_keeps: "authz_tracks E tuples \<Longrightarrow> within (view_same tuples) (checkClusterAdmin E c i)"
  unfolding checkClusterAdmin_def by (rule unchanged_ext_call) (simp add: authz_tracks_def)

lemma require_keeps: "authz_tracks E tuples \<Longrightarrow> within (view_same tuples) (requireClusterAdmin E c)"
  unfolding requireClusterAdmin_def by (intro unchanged.within_rules check_keeps)

lemma store_keeps:
  assumes "reads_keep E view"
  shows "within (view_same view) (store_UpdateUser E i update)" "within (view_same view) (store_GetUser E i)"
    "within (view_same view) (store_DeleteUser E i)"
  unfolding store_UpdateUser_def store_GetUser_def store_DeleteUser_def query_row_def Let_def
  by (intro unchanged.within_rules unchanged_run_sql assms)+

lemma guardE:
  assumes "(if b then fail e else m) w = Some (Inr x, w')"
  obtains "\<not> b" "m w = Some (Inr x, w')"
  using assms by (simp split: if_splits)

lemma list_keeps: "reads_keep E view \<Longrightarrow> view (snd (e_list_objects E c req x)) = view x"
  by (simp add: reads_keep_def)

section \<open>Synchronisation\<close>

text \<open>Giving or taking the role succeeds also when there is nothing to do.\<close>

lemma sync_role_tuples:
  assumes "authz_tracks E tuples" and "syncClusterRole E c i role w = Some (Inr (), w')"
  shows "role \<in> {CLUSTER_ROLE_ADMIN, CLUSTER_ROLE_UNSPECIFIED} \<and> db w' = db w
    \<and> tuples (ext w') = (if role = CLUSTER_ROLE_ADMIN then insert (admin_tuple E i) (tuples (ext w))
        else tuples (ext w) - {admin_tuple E i})"
proof -
  let ?asked = "\<lambda>req. attempt (ext_call (e_write E c req)) (\<lambda>written.
        case written of
          Inr _ \<Rightarrow> ret ()
        | Inl err \<Rightarrow>
           if e_status_code E err \<in> {CodeAlreadyExists, CodeNotFound} then ret () else fail err)"
  let ?grant = "\<lparr>wr_writes = [admin_tuple E i], wr_deletes = []\<rparr>"
    and ?revoke = "\<lparr>wr_writes = [], wr_deletes = [admin_tuple E i]\<rparr>"
  have eqs: "syncClusterRole E c i CLUSTER_ROLE_ADMIN w = ?asked ?grant w"
      "syncClusterRole E c i CLUSTER_ROLE_UNSPECIFIED w = ?asked ?revoke w"
    by (simp_all only: syncClusterRole_def cluster_role.case call_lift sum.case)
  have run: "db w' = db w \<and> tuples (ext w') = tuples (ext w) \<union> set (wr_writes req) - set (wr_deletes req)"
    if "?asked req w = Some (Inr (), w')"
      and "req = \<lparr>wr_writes = [k], wr_deletes = []\<rparr> \<or> req = \<lparr>wr_writes = [], wr_deletes = [k]\<rparr>" for req k
  proof -
    obtain r x where wr: "e_write E c req (ext w) = (r, x)" by fastforce
    have "w' = w\<lparr>ext := x\<rparr>" and "r = Inr () \<or> (\<exists>err. r = Inl err \<and> e_status_code E err \<in> {CodeAlreadyExists, CodeNotFound})"
      using that(1) by (cases r; simp add: attempt_def ext_call_run wr split: if_splits)+
    with authz_write [OF assms(1) wr] that(2) show ?thesis by (elim disjE exE conjE) auto
  qed
  show ?thesis
  proof (cases role)
    case CLUSTER_ROLE_ADMIN
    then show ?thesis using run [of ?grant "admin_tuple E i"] assms(2) by (simp only: eqs) simp
  next
    case CLUSTER_ROLE_UNSPECIFIED
    then show ?thesis using run [of ?revoke "admin_tuple E i"] assms(2) by (simp only: eqs) simp
  next
    case (CLUSTER_ROLE_OTHER n)
    with assms(2) show ?thesis by (simp add: syncClusterRole_def)
  qed
qed

lemma resolved_role:
  assumes "authz_tracks E tuples" and "resolveClusterRole E c i w = Some (Inr role, w')"
  shows "role = (if admin_tuple E i \<in> tuples (ext w) then CLUSTER_ROLE_ADMIN else CLUSTER_ROLE_UNSPECIFIED)"
proof -
  obtain b where "fst (e_check E c (admin_tuple E i) (ext w)) = Inr b" and role: "role = (if b then CLUSTER_ROLE_ADMIN else CLUSTER_ROLE_UNSPECIFIED)"
    using assms(2) by (auto simp: resolveClusterRole_def checkClusterAdmin_def call_Inr_iff ext_call_run split: if_splits)
  moreover have "b = (admin_tuple E i \<in> tuples (ext w))"
    using assms(1) calculation(1) by (simp add: authz_tracks_def)
  ultimately show ?thesis by simp
qed

text \<open>
  C13. After an \<open>UpdateUser\<close> that was asked for a role has succeeded, the user has that role and no other
  tuple of the Authorization service has changed, also when the user had the role before; whoever reads
  the role then reads the one that was asked for. One that names no role changes no tuple.
\<close>

theorem updated_role_reads_back:
  assumes "authz_tracks E tuples" and "UpdateUser E c req w = Some (Inr u, w')"
  shows "\<exists>i. e_uuid_parse E (uur_IdentityId req) = Inr i \<and> (case uur_ClusterRole req of
      None \<Rightarrow> tuples (ext w') = tuples (ext w)
    | Some role \<Rightarrow>
        tuples (ext w') = (if role = CLUSTER_ROLE_ADMIN then insert (admin_tuple E i) (tuples (ext w))
          else tuples (ext w) - {admin_tuple E i})
        \<and> (\<forall>c' q w''. resolveClusterRole E c' i w' = Some (Inr q, w'') \<longrightarrow> q = role))"
proof -
  note reads = authz_reads [OF assms(1)]
  have "\<exists>i w2. parseUUID E (uur_IdentityId req) = Inr i \<and> tuples (ext w2) = tuples (ext w)
      \<and> (case uur_ClusterRole req of None \<Rightarrow> ret () | Some role \<Rightarrow> syncClusterRole E c i role) w2 = Some (Inr (), w')"
    using assms(2) unfolding UpdateUser_def Let_def
  proof (elim callE guardE, goal_cases)
    case (1 _ w1 i w2 u1 w3 u2 w4 v w5 u3 w6)
    then have "tuples (ext w5) = tuples (ext w4)"
      by (auto split: if_splits dest: same_view [OF store_keeps(1) [OF reads]] same_view [OF store_keeps(2) [OF reads]])
    moreover have "tuples (ext w1) = tuples (ext w)" using 1 by (auto dest: same_view [OF require_keeps [OF assms(1)]])
    ultimately show ?case using 1 by (intro exI [of _ i] exI [of _ w5]) auto
  qed
  then obtain i w2 where i: "parseUUID E (uur_IdentityId req) = Inr i" and w2: "tuples (ext w2) = tuples (ext w)"
      and sync: "(case uur_ClusterRole req of None \<Rightarrow> ret () | Some role \<Rightarrow> syncClusterRole E c i role) w2 = Some (Inr (), w')"
    by blast
  show ?thesis
  proof (cases "uur_ClusterRole req")
    case None
    with sync w2 parse_uuid_Inr [OF i] show ?thesis by simp
  next
    case (Some role)
    with sync sync_role_tuples [OF assms(1)] w2 have after: "role \<in> {CLUSTER_ROLE_ADMIN, CLUSTER_ROLE_UNSPECIFIED}"
        "tuples (ext w') = (if role = CLUSTER_ROLE_ADMIN then insert (admin_tuple E i) (tuples (ext w))
          else tuples (ext w) - {admin_tuple E i})"
      by fastforce+
    then have "q = role" if "resolveClusterRole E c' i w' = Some (Inr q, w'')" for c' q w''
      using resolved_role [OF assms(1) that] by auto
    with after(2) Some parse_uuid_Inr [OF i] show ?thesis by auto
  qed
qed

text \<open>
  C14. A deletion that succeeds takes away the user's administrator tuple and the memberships that the
  service listed for them, and no other tuple.
\<close>

theorem deleted_user_loses_tuples:
  assumes "authz_tracks E tuples" and "DeleteUser E c s w = Some (Inr (), w')"
  shows "\<exists>i objects x x'. e_uuid_parse E s = Inr i
    \<and> e_list_objects E c \<lparr>lo_type = ''organization'', lo_relation = ''member'',
        lo_user = identityObjectPrefix @ e_uuid_string E i\<rparr> x = (Inr objects, x')
    \<and> tuples x = tuples (ext w) - {admin_tuple E i}
    \<and> tuples (ext w') = tuples x - (\<lambda>object. \<lparr>tk_user = identityObjectPrefix @ e_uuid_string E i,
        tk_relation = ''member'', tk_object = object\<rparr>) ` set objects"
proof -
  note reads = authz_reads [OF assms(1)]
  show ?thesis
    using assms(2) unfolding DeleteUser_def Let_def
  proof (elim callE, goal_cases)
    case (1 _ w0 i w1 _ w2 objects w3 _ w4 _ w5)
    let ?member = "\<lambda>object. \<lparr>tk_user = identityObjectPrefix @ e_uuid_string E i, tk_relation = ''member'', tk_object = object\<rparr>"
    have listed: "e_list_objects E c \<lparr>lo_type = ''organization'', lo_relation = ''member'',
        lo_user = identityObjectPrefix @ e_uuid_string E i\<rparr> (ext w2) = (Inr objects, ext w3)"
      using 1 by (auto simp: ext_call_run prod_eq_iff)
    have removed: "tuples (ext w4) = tuples (ext w3) - ?member ` set objects"
    proof (cases "objects = []")
      case True
      with 1 show ?thesis by simp
    next
      case False
      then have "e_write E c \<lparr>wr_writes = [], wr_deletes = map ?member objects\<rparr> (ext w3) = (Inr (), ext w4)"
        using 1 by (auto simp: ext_call_run prod_eq_iff)
      from authz_write [OF assms(1) this] show ?thesis by simp
    qed
    have admin: "tuples (ext w0) = tuples (ext w)" using 1(1) by (rule same_view [OF require_keeps [OF assms(1)]])
    have i: "w1 = w0" "parseUUID E s = Inr i" using 1(2) by simp_all
    have role: "tuples (ext w2) = tuples (ext w1) - {admin_tuple E i}"
      using sync_role_tuples [OF assms(1), of c i CLUSTER_ROLE_UNSPECIFIED w1 w2] 1(3) by simp
    have asked: "tuples (ext w3) = tuples (ext w2)"
      using list_keeps [OF reads, of c _ "ext w2"] listed by (metis snd_conv)
    have rows: "tuples (ext w5) = tuples (ext w4)" using 1(6) by (rule same_view [OF store_keeps(3) [OF reads]])
    have "w' = w5" using 1(7) by simp
    then show ?case
      using listed parse_uuid_Inr [OF i(2)] removed role asked rows admin i(1)
      by (intro exI [of _ i] exI [of _ objects] exI [of _ "ext w2"] exI [of _ "ext w3"]) simp
  qed
qed

section \<open>Signing in\<close>

text \<open>
  C15. Signing in, for the first time or again, leaves every tuple of the Authorization service as it is:
  nobody gains or loses a role by it.
\<close>

theorem sign_in_keeps_roles:
  assumes "authz_tracks E tuples" and "leaves_tuples E tuples"
    and "ResolveOrCreateUser E c req w = Some (r, w')"
  shows "tuples (ext w') = tuples (ext w)"
proof -
  note reads = authz_reads [OF assms(1)]
  have draws: "within (view_same tuples) (ext_call (e_rand_int E n))"
    and register: "within (view_same tuples) (ext_call (e_register_identity E c reg))" for n reg
    using assms(2) by (auto simp: leaves_tuples_def intro!: unchanged_ext_call)
  have "tuples x' = tuples x" if "e_uuid_new E x = (i, x')" for x x' i
    using assms(2) that unfolding leaves_tuples_def by (metis snd_conv)
  then have new: "within (view_same tuples) (ext_value (e_uuid_new E))"
    by (auto simp: within_def view_same_def ext_value_def split: prod.splits)
  have resolve: "within (view_same tuples) (store_ResolveOrCreateUser E input)" for input
    unfolding store_ResolveOrCreateUser_def insert_user_def select_user_by_subject_def query_row_def
    by (intro unchanged.within_rules unchanged_run_sql reads new)
  have loop: "within (view_same tuples) (try_usernames E (\<lambda>candidate. store_ResolveOrCreateUser E (input candidate))
      (newUsernameCandidateIterator (deriveUsernameBase a b d e)))" for input a b d e
    by (rule within_try_usernames [OF unchanged.state_preorder_axioms draws])
      (simp_all add: resolve newUsernameCandidateIterator_def derived_base_valid)
  have "within (view_same tuples) (ResolveOrCreateUser E c req)"
    unfolding ResolveOrCreateUser_def register_resolved_def Let_def
    by (intro unchanged.within_rules loop register store_keeps reads)
  then show ?thesis using assms(3) by (rule same_view)
qed

section \<open>A service for the witnesses\<close>

text \<open>It keeps a list of tuples, and refuses to write one that is there or to delete one that is not.\<close>

definition authz_write_list ::
  "write_request \<Rightarrow> nat \<times> tuple_key list \<Rightarrow> (go_err + unit) \<times> (nat \<times> tuple_key list)" where
  "authz_write_list req s =
    (if \<exists>k \<in> set (wr_writes req). k \<in> set (snd s) then (Inl (Status CodeAlreadyExists []), s)
     else if \<exists>k \<in> set (wr_deletes req). k \<notin> set (snd s) then (Inl (Status CodeNotFound []), s)
     else (Inr (), (fst s, filter (\<lambda>k. k \<notin> set (wr_deletes req)) (wr_writes req @ snd s))))"

definition demo_authz :: "(nat \<times> tuple_key list) env" where
  "demo_authz = (demo_with (\<lambda>req s. (Inr (), s))
      (\<lambda>req s. (Inr \<lparr>cd_ziti_identity_id = ''ziti'', cd_enrollment_jwt = ''jwt''\<rparr>, s)) (\<lambda>z s. (Inr (), s)))
    \<lparr>e_check := \<lambda>c k s. (Inr (k \<in> set (snd s)), s), e_write := \<lambda>c. authz_write_list\<rparr>"

lemma demo_authz_tracks: "authz_tracks demo_authz (set \<circ> snd)"
  by (auto simp: authz_tracks_def reads_keep_def demo_authz_def demo_with_def authz_write_list_def demo_def
      split: if_splits)

text \<open>User 1 is signed in, an administrator and a member of organization 9.\<close>

definition one_admin :: "(nat \<times> tuple_key list) world" where
  "one_admin = \<lparr>db = db signed_in, ext = (5, [
    \<lparr>tk_user = ''identity:1'', tk_relation = adminRelation, tk_object = clusterObject\<rparr>,
    \<lparr>tk_user = ''identity:1'', tk_relation = ''member'', tk_object = ''organization:9''\<rparr>])\<rparr>"

theorem updated_role_reads_back_witness:
  "\<exists>u w'. UpdateUser demo_authz (as_user ''1'') \<lparr>uur_IdentityId = ''1'', uur_Name = None, uur_Email = None,
      uur_Nickname = None, uur_PhotoUrl = None, uur_Username = None, uur_ClusterRole = Some CLUSTER_ROLE_ADMIN\<rparr> one_admin
      = Some (Inr u, w')
    \<and> admin_tuple demo_authz 1 \<in> set (snd (ext w'))"
proof -
  let ?req = "\<lparr>uur_IdentityId = ''1'', uur_Name = None, uur_Email = None, uur_Nickname = None, uur_PhotoUrl = None,
      uur_Username = None, uur_ClusterRole = Some CLUSTER_ROLE_ADMIN\<rparr>"
  have "case UpdateUser demo_authz (as_user ''1'') ?req one_admin of Some (Inr r, w) \<Rightarrow> True | _ \<Rightarrow> False"
    by code_simp
  then obtain u w' where run: "UpdateUser demo_authz (as_user ''1'') ?req one_admin = Some (Inr u, w')"
    by (auto split: option.splits prod.splits sum.splits)
  have "e_uuid_parse demo_authz ''1'' = Inr 1" by code_simp
  with updated_role_reads_back [OF demo_authz_tracks run] have "admin_tuple demo_authz 1 \<in> set (snd (ext w'))" by auto
  with run show ?thesis by blast
qed

theorem deleted_user_loses_tuples_witness:
  "\<exists>w'. DeleteUser demo_authz (as_user ''1'') ''1'' one_admin = Some (Inr (), w')
    \<and> admin_tuple demo_authz 1 \<notin> set (snd (ext w')) \<and> set (snd (ext w')) \<subseteq> set (snd (ext one_admin))"
proof -
  have "case DeleteUser demo_authz (as_user ''1'') ''1'' one_admin of Some (Inr r, w) \<Rightarrow> True | _ \<Rightarrow> False"
    by code_simp
  then obtain w' where run: "DeleteUser demo_authz (as_user ''1'') ''1'' one_admin = Some (Inr (), w')"
    by (auto split: option.splits prod.splits sum.splits)
  have "e_uuid_parse demo_authz ''1'' = Inr 1" by code_simp
  with deleted_user_loses_tuples [OF demo_authz_tracks run] have "admin_tuple demo_authz 1 \<notin> set (snd (ext w'))"
      and "set (snd (ext w')) \<subseteq> set (snd (ext one_admin))"
    by auto
  with run show ?thesis by blast
qed

theorem sign_in_keeps_roles_witness:
  "\<exists>p w'. ResolveOrCreateUser demo_authz background
      \<lparr>rcu_OidcSubject = ''new'', rcu_PreferredUsername = ''ann'', rcu_Email = [], rcu_Name = ''Ann'', rcu_PhotoUrl = []\<rparr> one_admin
      = Some (Inr (p, True), w')
    \<and> set (snd (ext w')) = set (snd (ext one_admin))"
proof -
  let ?req = "\<lparr>rcu_OidcSubject = ''new'', rcu_PreferredUsername = ''ann'', rcu_Email = [], rcu_Name = ''Ann'', rcu_PhotoUrl = []\<rparr>"
  have "case ResolveOrCreateUser demo_authz background ?req one_admin of Some (Inr (p, created), w) \<Rightarrow> created | _ \<Rightarrow> False"
    by code_simp
  then obtain p w' where run: "ResolveOrCreateUser demo_authz background ?req one_admin = Some (Inr (p, True), w')"
    by (auto split: option.splits prod.splits sum.splits)
  have "leaves_tuples demo_authz (set \<circ> snd)"
    by (simp add: leaves_tuples_def demo_authz_def demo_with_def)
  with sign_in_keeps_roles [OF demo_authz_tracks _ run] have "set (snd (ext w')) = set (snd (ext one_admin))" by simp
  with run show ?thesis by blast
qed

end
