(* ===== verification/Failure_Facts.thy ===== *)
theory Failure_Facts
  imports User_Facts
begin

text \<open>
  What a sign-in or a creation that fails leaves behind, when no other session writes but a connection may
  fail at any statement. Each handler inserts a row and takes it back when a later step fails; the facts
  here follow the row through the statements, the candidate loop and the undoing, so that the two
  properties at the end name the only two places where the row can stay.
\<close>

section \<open>The new row\<close>

definition new_row :: "database \<Rightarrow> user_row \<Rightarrow> database \<Rightarrow> bool" where
  "new_row d row d' \<longleftrightarrow> user_conflict (users d) row = None \<and> d' = d\<lparr>users := users d @ [row]\<rparr>"

text \<open>
  The two ways in which it stays: the connection failed after the insertion took effect, and the call ends
  there; or the deletion that takes it back failed before it took effect, and the handler ignores that.
\<close>

definition insertion_unanswered :: "'x env \<Rightarrow> database \<Rightarrow> user_row \<Rightarrow> 'x world \<Rightarrow> bool" where
  "insertion_unanswered E d row w' \<longleftrightarrow>
    (\<exists>v input msg. db v = d \<and> s_fault (session_of E v) = FaultAfter msg
      \<and> insert_user E (u_identity_id row) input v = Some (Inl (External msg), w'))"

definition deletion_failed :: "'x env \<Rightarrow> user_row \<Rightarrow> 'x world \<Rightarrow> bool" where
  "deletion_failed E row w' \<longleftrightarrow>
    (\<exists>v msg. db v = db w' \<and> s_fault (session_of E v) = FaultBefore msg
      \<and> store_DeleteUser E (u_identity_id row) v = Some (Inl (External msg), w'))"

section \<open>The statements\<close>

lemma alone_select_subject:
  "alone E \<Longrightarrow> select_user_by_subject E s w = Some (r, w') \<Longrightarrow> db w' = db w"
  unfolding select_user_by_subject_def by (erule same_db [OF reads_query_row, rotated -1]) simp_all

lemma alone_insert_user:
  assumes "alone E" and "insert_user E i input w = Some (r, w')"
  obtains (none) e where "r = Inl e" "db w' = db w"
    | (unanswered) sn msg where "r = Inl (External msg)" "new_row (db w) (user_row_of sn i input) (db w')"
        "s_fault (session_of E w) = FaultAfter msg"
    | (made) sn where "r = scanUser (user_row_of sn i input)" "new_row (db w) (user_row_of sn i input) (db w')"
  using assms(1) assms(2) [unfolded insert_user_def]
proof (cases rule: alone_query_row)
  case ran
  with none made show ?thesis
    by (cases "user_conflict (users (db w)) (user_row_of (session_of E w) i input)")
      (auto simp: sql_insert_user_def new_row_def)
next
  case (before msg)
  with none show ?thesis by simp
next
  case (after msg)
  with none unanswered show ?thesis
    by (cases "user_conflict (users (db w)) (user_row_of (session_of E w) i input)")
      (auto simp: sql_insert_user_def new_row_def)
qed

lemma new_row_undone:
  "schema_ok d \<Longrightarrow> new_row d row d' \<Longrightarrow> snd (sql_delete_user (u_identity_id row) d') = d"
  by (simp add: new_row_def undo_insert)

lemma new_row_mem: "new_row d row d' \<Longrightarrow> u_identity_id row \<in> user_ids d'"
  by (simp add: new_row_def user_ids_def)

text \<open>The undoing: the row is gone, or the deletion failed before it took effect.\<close>

lemma alone_undo:
  assumes "alone E" and "schema_ok d" and "new_row d row (db w)"
    and "store_DeleteUser E (u_identity_id row) w = Some (r, w')"
  obtains (gone) "db w' = d" | (stays) "db w' = db w" "deletion_failed E row w'"
proof -
  have undone: "snd (sql_delete_user (u_identity_id row) (db w)) = d"
    by (rule new_row_undone [OF assms(2,3)])
  obtain q where q: "run_sql E (\<lambda>s. sql_delete_user (u_identity_id row)) w = Some (q, w')"
      and r: "r = (case q of Inl e \<Rightarrow> Inl e | Inr n \<Rightarrow> if n = 0 then Inl (NotFound ''user'') else Inr ())"
    using assms(4) by (auto simp: store_DeleteUser_def call_Some_iff split: sum.splits if_splits)
  from assms(1) q show thesis
  proof (cases rule: alone_run)
    case (before msg)
    then have "deletion_failed E row w'"
      using assms(4) r by (auto simp: deletion_failed_def intro!: exI [of _ w])
    with before that show thesis by simp
  qed (use gone undone in auto)
qed

section \<open>The store\<close>

lemma alone_resolve:
  assumes "alone E" and "store_ResolveOrCreateUser E input w = Some (r, w')"
  obtains (none) "db w' = db w" "\<forall>u. r \<noteq> Inr (u, True)"
    | (unanswered) msg row where "r = Inl (External msg)" "u_oidc_subject row = ui_OIDCSubject input"
        "new_row (db w) row (db w')" "insertion_unanswered E (db w) row w'"
    | (made) u row where "r = Inr (u, True)" "u_oidc_subject row = ui_OIDCSubject input"
        "new_row (db w) row (db w')" "meta_ID (usr_Meta u) = u_identity_id row"
proof -
  note sel = alone_select_subject [OF assms(1)]
  obtain r1 w1 where r1: "select_user_by_subject E (ui_OIDCSubject input) w = Some (r1, w1)"
    using assms(2) by (auto simp: store_ResolveOrCreateUser_def attempt_Some_iff)
  show thesis
  proof (cases "\<exists>e. r1 = Inl e \<and> is_no_rows e")
    case False
    with assms(2) r1 show thesis
      by (intro none) (auto simp: store_ResolveOrCreateUser_def attempt_def dest: sel split: sum.splits)
  next
    case True
    define i where "i = fst (e_uuid_new E (ext w1))"
    define w2 where "w2 = w1\<lparr>ext := snd (e_uuid_new E (ext w1))\<rparr>"
    have w2: "db w2 = db w" by (simp add: w2_def sel [OF r1])
    have new: "call (ext_value (e_uuid_new E)) id k w1 = k i w2" for k :: "uuid \<Rightarrow> ('a world, user \<times> bool) go"
      by (simp add: call_def attempt_def ext_value_run i_def w2_def)
    obtain r2 w3 where r2: "insert_user E i input w2 = Some (r2, w3)"
      and rest: "(case r2 of Inr user \<Rightarrow> ret (user, True)
        | Inl err \<Rightarrow> (case as_pg_error err of None \<Rightarrow> fail err
           | Some (code, constraint) \<Rightarrow>
              if code = ''23505'' then
                if constraint = ''users_username_idx'' then fail (AlreadyExists ''username'')
                else if constraint = ''users_oidc_subject_idx'' then
                  attempt (select_user_by_subject E (ui_OIDCSubject input)) (\<lambda>again.
                  case again of Inl err \<Rightarrow> if is_no_rows err then fail (NotFound ''user'') else fail err
                  | Inr user \<Rightarrow> ret (user, False))
                else fail (AlreadyExists ''user'')
              else fail err)) w3 = Some (r, w')"
      using True assms(2) r1 by (auto simp: store_ResolveOrCreateUser_def attempt_def new split: option.splits)
    from assms(1) r2 show thesis
    proof (cases rule: alone_insert_user)
      case (none e)
      then have "db w' = db w \<and> (\<forall>u. r \<noteq> Inr (u, True))"
        using rest w2 by (auto simp: attempt_def dest: sel split: option.splits prod.splits if_splits sum.splits)
      then show thesis using that(1) by blast
    next
      case (unanswered sn msg)
      then have "w' = w3" "r = Inl (External msg)" using rest by auto
      then show thesis
        using that(2) [of msg "user_row_of sn i input"] unanswered r2 w2
        by (auto simp: insertion_unanswered_def)
    next
      case (made sn)
      then show thesis
        using that(3) [of _ "user_row_of sn i input"] rest w2 by (auto simp: scanUser_def)
    qed
  qed
qed

lemma alone_create:
  assumes "alone E" and "store_CreateUser E input w = Some (r, w')"
  obtains (none) e where "r = Inl e" "db w' = db w"
    | (unanswered) msg row where "r = Inl (External msg)" "u_oidc_subject row = ui_OIDCSubject input"
        "new_row (db w) row (db w')" "insertion_unanswered E (db w) row w'"
    | (made) u row where "r = Inr u" "u_oidc_subject row = ui_OIDCSubject input"
        "new_row (db w) row (db w')" "meta_ID (usr_Meta u) = u_identity_id row"
proof -
  define i where "i = fst (e_uuid_new E (ext w))"
  define w2 where "w2 = w\<lparr>ext := snd (e_uuid_new E (ext w))\<rparr>"
  have w2: "db w2 = db w" by (simp add: w2_def)
  obtain r2 where r2: "insert_user E i input w2 = Some (r2, w')"
    and r: "r = (case r2 of Inr u \<Rightarrow> Inr u
        | Inl err \<Rightarrow> (case as_pg_error err of None \<Rightarrow> Inl err
           | Some (code, constraint) \<Rightarrow>
              if code = ''23505'' then
                if constraint = ''users_username_idx'' then Inl (AlreadyExists ''username'')
                else Inl (AlreadyExists ''user'')
              else Inl err))"
    using assms(2)
    by (auto simp: store_CreateUser_def call_def [of "ext_value _"] attempt_def ext_value_run i_def w2_def
        split: option.splits sum.splits if_splits)
  from assms(1) r2 show thesis
  proof (cases rule: alone_insert_user)
    case (none e)
    then have "\<exists>e. r = Inl e" using r by (auto split: option.splits if_splits)
    with none w2 that(1) show thesis by auto
  next
    case (unanswered sn msg)
    then show thesis
      using that(2) [of msg "user_row_of sn i input"] r r2 w2 by (auto simp: insertion_unanswered_def)
  next
    case (made sn)
    then show thesis
      using that(3) [of _ "user_row_of sn i input"] r w2 by (auto simp: scanUser_def)
  qed
qed

section \<open>The loop over the candidates\<close>

text \<open>
  If a call that finds its name taken leaves the tables, the loop changes them in its last call only, which
  begins in the tables the loop began in.
\<close>

lemma try_usernames_last:
  assumes taken: "\<And>name w e w'. create name w = Some (Inl e, w') \<Longrightarrow> isAlreadyExists e ''username'' \<Longrightarrow> db w' = db w"
  shows "try_usernames E create iter w = Some (r, w') \<Longrightarrow>
    (\<exists>e. r = Inl e) \<and> db w' = db w
    \<or> (\<exists>name v q. create name v = Some (q, w') \<and> db v = db w
        \<and> r = (case q of Inl e \<Rightarrow> Inl (toStatusError e) | Inr x \<Rightarrow> Inr x))"
proof (induction "candidates_left iter" arbitrary: iter w rule: less_induct)
  case less
  note same = next_candidate_same [of E iter]
  from less.prems show ?case
  proof (cases rule: try_usernames_cases)
    case (taken name iter' w1 err w2)
    have "db w2 = db w" using same [OF taken(1)] assms [OF taken(2,3)] by simp
    moreover have "candidates_left iter' < candidates_left iter" using next_candidate_step(3) [OF taken(1)] by simp
    ultimately show ?thesis using less.hyps [of iter' w2] taken(4) by simp
  next
    case (found name iter' w1 x)
    with same [OF found(1)] show ?thesis by force
  next
    case (failed name iter' w1 err)
    with same [OF failed(1)] show ?thesis by force
  qed (auto dest: same)
qed

section \<open>Sign-in\<close>

lemma taken_not_external: "\<not> isAlreadyExists (External msg) r"
  by (simp add: isAlreadyExists_def)

text \<open>The end of sign-in: what was made is kept or taken back, what was found stays.\<close>

lemma alone_register:
  assumes "alone E" and "register_resolved E c u created w = Some (Inl e, w')"
    and "created \<Longrightarrow> schema_ok d \<and> new_row d row (db w) \<and> meta_ID (usr_Meta u) = u_identity_id row"
  shows "created \<and> (db w' = d \<or> db w' = db w \<and> deletion_failed E row w')"
proof -
  let ?reg = "e_register_identity E c
      \<lparr>ri_identity_id = e_uuid_string E (meta_ID (usr_Meta u)), ri_identity_type = IDENTITY_TYPE_USER\<rparr> (ext w)"
  let ?v = "w\<lparr>ext := snd ?reg\<rparr>"
  have c: created and "\<exists>q. store_DeleteUser E (meta_ID (usr_Meta u)) ?v = Some (q, w')"
    using assms(2) by (auto simp: register_resolved_def attempt_def ext_call_run split: option.splits sum.splits if_splits)
  then obtain q where q: "store_DeleteUser E (u_identity_id row) ?v = Some (q, w')" using assms(3) by auto
  have row: "new_row d row (db ?v)" using assms(3) c by simp
  show ?thesis
    by (rule alone_undo [OF assms(1) conjunct1 [OF assms(3) [OF c]] row q]) (simp_all add: c)
qed

text \<open>
  C18. A sign-in that answers with an error leaves the tables as they were, at whatever point it fails (the
  names running out, a statement that fails, the identity service refusing to register the user just
  created, whose row is taken back), when no other session writes, with exactly two exceptions: a
  connection that fails after the insertion took effect, where the call ends with the inserted row, and a
  connection that fails before the deletion that takes the row back, which the handler ignores. In both the
  tables get that one row, of the subject that signed in, and nothing else.
\<close>

theorem failed_sign_in_undone:
  assumes "alone E" and "schema_ok (db w)" and "ResolveOrCreateUser E c req w = Some (Inl e, w')"
  shows "db w' = db w
    \<or> (\<exists>row. u_oidc_subject row = rcu_OidcSubject req \<and> new_row (db w) row (db w')
        \<and> (insertion_unanswered E (db w) row w' \<or> deletion_failed E row w'))"
proof (cases "rcu_OidcSubject req = []")
  case True
  with assms(3) show ?thesis by (simp add: ResolveOrCreateUser_def)
next
  case False
  let ?create = "\<lambda>n. store_ResolveOrCreateUser E (sign_in_input req n)"
  let ?iter = "newUsernameCandidateIterator
    (deriveUsernameBase (rcu_PreferredUsername req) (rcu_Email req) (rcu_Name req) (rcu_OidcSubject req))"
  obtain r w1 where loop: "try_usernames E ?create ?iter w = Some (r, w1)"
      and rest: "case r of Inl e' \<Rightarrow> w' = w1 | Inr (u, b) \<Rightarrow> register_resolved E c u b w1 = Some (Inl e, w')"
    using assms(3) unfolding sign_in_unfold [OF False] by (auto simp: call_Some_iff)
  have taken: "db v' = db v" if "?create n v = Some (Inl err, v')" "isAlreadyExists err ''username''" for n v err v'
    using assms(1) that(1) by (cases rule: alone_resolve) (use that(2) taken_not_external in auto)
  consider "\<exists>e. r = Inl e" "db w1 = db w"
    | n v q where "?create n v = Some (q, w1)" "db v = db w" "r = (case q of Inl e \<Rightarrow> Inl (toStatusError e) | Inr x \<Rightarrow> Inr x)"
    using try_usernames_last [OF _ loop] taken by blast
  then show ?thesis
  proof cases
    case 1
    with rest show ?thesis by auto
  next
    case (2 n v q)
    from assms(1) 2(1) show ?thesis
    proof (cases rule: alone_resolve)
      case none
      show ?thesis
      proof (cases r)
        case (Inl e')
        with none 2(2) rest show ?thesis by simp
      next
        case (Inr p)
        then have "\<not> snd p" using none(2) 2(3) by (cases p) (auto split: sum.splits)
        with Inr rest alone_register [OF assms(1), of c "fst p" "snd p" w1 e w'] show ?thesis by auto
      qed
    next
      case (unanswered msg row)
      with 2(2,3) rest show ?thesis by (auto simp: sign_in_input_subject)
    next
      case (made u row)
      then have "register_resolved E c u True w1 = Some (Inl e, w')" using rest 2(3) by simp
      from alone_register [OF assms(1) this, of "db w" row] made 2(2) assms(2)
      show ?thesis by (auto simp: sign_in_input_subject)
    qed
  qed
qed

section \<open>Administrative creation\<close>

text \<open>The input of a creation, as the handler builds it.\<close>

definition create_input :: "create_user_request \<Rightarrow> string \<Rightarrow> user_input" where
  "create_input req username =
    \<lparr>ui_OIDCSubject = cur_OidcSubject req, ui_Name = cur_Name req, ui_Email = [],
     ui_Nickname = cur_Nickname req, ui_Username = username, ui_PhotoURL = cur_PhotoUrl req\<rparr>"

lemma create_input_subject: "ui_OIDCSubject (create_input req n) = cur_OidcSubject req"
  by (simp add: create_input_def)

lemma create_named_unfold:
  "create_named E req = (case cur_Username req of
      Some v \<Rightarrow> call (lift (validateUsername v)) (Statusf CodeInvalidArgument ''username'')
        (\<lambda>_. call (store_CreateUser E (create_input req v)) toStatusError ret)
    | None \<Rightarrow> try_usernames E (\<lambda>n. store_CreateUser E (create_input req n))
        (newUsernameCandidateIterator (deriveUsernameBase [] [] (cur_Name req) (cur_OidcSubject req))))"
  by (simp add: create_named_def create_input_def Let_def split: option.split)

text \<open>Either way the row is made by one call of the store, which begins in the tables the handler found.\<close>

lemma create_named_last:
  assumes "alone E" and "create_named E req w = Some (r, w')"
  shows "(\<exists>e. r = Inl e) \<and> db w' = db w
    \<or> (\<exists>n v q. store_CreateUser E (create_input req n) v = Some (q, w') \<and> db v = db w
        \<and> r = (case q of Inl e \<Rightarrow> Inl (toStatusError e) | Inr x \<Rightarrow> Inr x))"
proof (cases "cur_Username req")
  case None
  have taken: "db v' = db v"
    if "store_CreateUser E (create_input req n) v = Some (Inl err, v')" "isAlreadyExists err ''username''" for n v err v'
    using assms(1) that(1) by (cases rule: alone_create) (use that(2) taken_not_external in auto)
  have "try_usernames E (\<lambda>n. store_CreateUser E (create_input req n))
      (newUsernameCandidateIterator (deriveUsernameBase [] [] (cur_Name req) (cur_OidcSubject req))) w = Some (r, w')"
    using assms(2) None by (simp add: create_named_unfold)
  then show ?thesis
    by (intro try_usernames_last [where create = "\<lambda>n. store_CreateUser E (create_input req n)"]) (rule taken)
next
  case (Some v)
  show ?thesis
  proof (cases "validateUsername v")
    case (Inl e)
    with assms(2) Some show ?thesis by (auto simp: create_named_unfold)
  next
    case (Inr u)
    then obtain q where "store_CreateUser E (create_input req v) w = Some (q, w')"
        and "r = (case q of Inl e \<Rightarrow> Inl (toStatusError e) | Inr x \<Rightarrow> Inr x)"
      using assms(2) Some by (cases r) (auto simp: create_named_unfold call_def attempt_def
          split: option.splits prod.splits sum.splits)
    then show ?thesis by blast
  qed
qed

text \<open>The end of a creation that answers with an error: the row is taken back, as far as the deletion goes.\<close>

lemma alone_finish:
  assumes "alone E" and "schema_ok d" and "new_row d row (db w)" and "meta_ID (usr_Meta u) = u_identity_id row"
    and "finish_create E c req u w = Some (Inl e, w')"
  shows "db w' = d \<or> db w' = db w \<and> deletion_failed E row w'"
proof -
  have undo: "db w' = d \<or> db w' = db w \<and> deletion_failed E row w'"
    if undo: "undo_create E u err v = Some (Inl e, w')" and v: "db v = db w" for err and v
  proof -
    obtain q where q: "store_DeleteUser E (u_identity_id row) v = Some (q, w')"
      using undo assms(4) by (auto simp: undo_create_def attempt_Some_iff)
    have "new_row d row (db v)" using assms(3) v by simp
    from alone_undo [OF assms(1,2) this q] v show ?thesis by metis
  qed
  let ?reg = "e_register_identity E c
      \<lparr>ri_identity_id = e_uuid_string E (meta_ID (usr_Meta u)), ri_identity_type = IDENTITY_TYPE_USER\<rparr> (ext w)"
  let ?v = "w\<lparr>ext := snd ?reg\<rparr>"
  show ?thesis
  proof (cases "fst ?reg")
    case (Inl err)
    then show ?thesis
      using assms(5) undo [of "Statusf CodeInternal ''register identity'' err" ?v]
      by (simp add: finish_create_def attempt_def ext_call_run)
  next
    case (Inr x)
    then obtain err v' where "syncClusterRole E c (meta_ID (usr_Meta u)) (cur_ClusterRole req) ?v = Some (Inl err, v')"
        and un: "undo_create E u (Statusf CodeInternal ''sync cluster role'' err) v' = Some (Inl e :: go_err + proto_user, w')"
      using assms(5) by (auto simp: finish_create_def attempt_def ext_call_run split: if_splits option.splits sum.splits)
    then have "db v' = db w" using same_db [OF same_auth(2)] by fastforce
    with un undo show ?thesis by blast
  qed
qed

text \<open>
  C19. A user creation that answers with an error leaves the tables as they were, at whatever step it fails,
  when no other session writes: when the identity cannot be registered or the administrator role cannot be
  granted, the row that was already inserted is deleted again, so that no user exists who was meant to be an
  administrator and is not. There are exactly two exceptions: a connection that fails after the insertion
  took effect, and one that fails before the deletion that takes the row back, whose failure the handler
  ignores. In both the tables get that one row and nothing else.
\<close>

theorem failed_creation_undone:
  assumes "alone E" and "schema_ok (db w)" and "CreateUser E c req w = Some (Inl e, w')"
  shows "db w' = db w
    \<or> (\<exists>row. u_oidc_subject row = cur_OidcSubject req \<and> new_row (db w) row (db w')
        \<and> (insertion_unanswered E (db w) row w' \<or> deletion_failed E row w'))"
proof -
  have admin: "db v' = db v" if "requireClusterAdmin E c v = Some (q, v')" for v q v'
    by (rule same_db [OF same_auth(1) that])
  consider (refused) q where "requireClusterAdmin E c w = Some (q, w')"
    | (named) i w1 r w2 where "requireClusterAdmin E c w = Some (Inr i, w1)" "create_named E req w1 = Some (r, w2)"
        "case r of Inl _ \<Rightarrow> w' = w2 | Inr u \<Rightarrow> finish_create E c req u w2 = Some (Inl e, w')"
    using assms(3)
    by (cases "validateClusterRole (cur_ClusterRole req)")
      (auto simp: CreateUser_def call_Some_iff split: if_splits)
  then show ?thesis
  proof cases
    case (named i w1 r w2)
    have w1: "db w1 = db w" by (rule admin [OF named(1)])
    from create_named_last [OF assms(1) named(2)] show ?thesis
    proof (elim disjE conjE exE)
      fix e' assume "r = Inl e'" "db w2 = db w1"
      with named(3) w1 show ?thesis by simp
    next
      fix n v q
      assume made: "store_CreateUser E (create_input req n) v = Some (q, w2)" "db v = db w1"
        "r = (case q of Inl e \<Rightarrow> Inl (toStatusError e) | Inr x \<Rightarrow> Inr x)"
      from assms(1) made(1) show ?thesis
      proof (cases rule: alone_create)
        case (none e')
        with made(2,3) named(3) w1 show ?thesis by simp
      next
        case (unanswered msg row)
        with made(2,3) named(3) w1 show ?thesis by (auto simp: create_input_subject)
      next
        case (made u row)
        then have "finish_create E c req u w2 = Some (Inl e, w')"
          using named(3) \<open>r = _\<close> by simp
        from alone_finish [OF assms(1,2) _ made(4) this] made(2,3) \<open>db v = _\<close> w1
        show ?thesis by (auto simp: create_input_subject)
      qed
    qed
  qed (use admin in auto)
qed

section \<open>Witnesses\<close>

text \<open>
  The demonstration world with an identity service that refuses; in \<open>cut_off\<close> the connection to the
  database fails from the fourth call on, which is the deletion that takes the new row back.
\<close>

definition refusing :: "nat env" where
  "refusing = demo\<lparr>e_register_identity := (\<lambda>c r x. (Inl (External ''down''), x))\<rparr>"

definition cut_off :: "nat env" where
  "cut_off = refusing\<lparr>e_session := (\<lambda>x.
    (\<lparr>s_interfere = id, s_now = int x, s_uuid = of_nat x,
      s_fault = (if x < 8 then NoFault else FaultBefore ''connection refused'')\<rparr>, x + 1))\<rparr>"

lemma refusing_alone: "alone refusing" and cut_off_alone: "alone cut_off"
  using demo_quiet by (simp_all add: quiet_def alone_def refusing_def cut_off_def)

text \<open>Both ways a failed sign-in can end: the row taken back, and the row staying.\<close>

theorem failed_sign_in_undone_witness:
  "\<exists>e w' e2 w2. ResolveOrCreateUser refusing background demo_sign_in fresh = Some (Inl e, w') \<and> db w' = empty_database
    \<and> ResolveOrCreateUser cut_off background demo_sign_in fresh = Some (Inl e2, w2)
    \<and> (\<exists>row. new_row empty_database row (db w2) \<and> deletion_failed cut_off row w2)"
proof -
  have "case ResolveOrCreateUser refusing background demo_sign_in fresh of
      Some (Inl e, w) \<Rightarrow> length (users (db w)) = 0 | _ \<Rightarrow> False"
    by code_simp
  then obtain e w' where run: "ResolveOrCreateUser refusing background demo_sign_in fresh = Some (Inl e, w')"
      and none: "users (db w') = []"
    by (auto split: option.splits prod.splits sum.splits)
  have "case ResolveOrCreateUser cut_off background demo_sign_in fresh of
      Some (Inl e, w) \<Rightarrow> length (users (db w)) = 1 \<and> ext w = 9 | _ \<Rightarrow> False"
    by code_simp
  then obtain e2 w2 where run2: "ResolveOrCreateUser cut_off background demo_sign_in fresh = Some (Inl e2, w2)"
      and one: "length (users (db w2)) = 1"
    by (auto split: option.splits prod.splits sum.splits)
  have ok: "schema_ok (db fresh)" and d: "db fresh = empty_database" by (simp_all add: fresh_def schema_empty)
  have "db w' = empty_database"
    using failed_sign_in_undone [OF refusing_alone ok run] none d by (auto simp: new_row_def)
  moreover have "db w2 \<noteq> empty_database" using one by (auto simp: empty_database_def)
  moreover have "\<not> insertion_unanswered cut_off empty_database row w2" for row
    by (auto simp: insertion_unanswered_def session_of_def cut_off_def split: if_splits)
  ultimately show ?thesis
    using failed_sign_in_undone [OF cut_off_alone ok run2] run run2 d by auto
qed

theorem failed_creation_undone_witness:
  "\<exists>e w'. CreateUser refusing (as_user ''1'') \<lparr>cur_OidcSubject = ''sub'', cur_Name = [], cur_Nickname = [],
      cur_PhotoUrl = [], cur_Username = Some ''bob'', cur_ClusterRole = CLUSTER_ROLE_ADMIN\<rparr> fresh = Some (Inl e, w')
    \<and> db w' = empty_database"
proof -
  let ?req = "\<lparr>cur_OidcSubject = ''sub'', cur_Name = [], cur_Nickname = [], cur_PhotoUrl = [],
      cur_Username = Some ''bob'', cur_ClusterRole = CLUSTER_ROLE_ADMIN\<rparr>"
  have "case CreateUser refusing (as_user ''1'') ?req fresh of Some (Inl e, w) \<Rightarrow> length (users (db w)) = 0 | _ \<Rightarrow> False"
    by code_simp
  then obtain e w' where run: "CreateUser refusing (as_user ''1'') ?req fresh = Some (Inl e, w')"
      and none: "users (db w') = []"
    by (auto split: option.splits prod.splits sum.splits)
  have ok: "schema_ok (db fresh)" and d: "db fresh = empty_database" by (simp_all add: fresh_def schema_empty)
  show ?thesis
    using failed_creation_undone [OF refusing_alone ok run] run none d by (auto simp: new_row_def)
qed

end
