(* ===== verification/Demo_Runs.thy ===== *)
theory Demo_Runs
  imports User_Changes
begin

text \<open>
  Runs of the service in the small outside world of \<open>Demo_Env\<close>: concrete inputs at which theorems of the
  earlier theories apply.
\<close>

theorem page_token_roundtrip_witness:
  "DecodePageToken demo (EncodePageToken demo 7) = Inr 7"
  using page_token_roundtrip [OF demo_codec demo_string_not_Nil, of 7] by blast

text \<open>A step of the service from the state in which the first user has signed in.\<close>

lemma renamed_run:
  obtains w where "serve demo (as_user ''1'') (R_UpdateMe \<lparr>umr_Name = Some ''Robert'', umr_Username = Some ''robert''\<rparr>) signed_in
      = Some (Inr (), w)"
proof -
  have "case serve demo (as_user ''1'') (R_UpdateMe \<lparr>umr_Name = Some ''Robert'', umr_Username = Some ''robert''\<rparr>) signed_in
      of Some (Inr u, w) \<Rightarrow> True | _ \<Rightarrow> False"
    by code_simp
  then show thesis using that by (auto split: option.splits prod.splits sum.splits)
qed

theorem service_stores_valid_rows_witness:
  "\<exists>w. serve demo (as_user ''1'') (R_UpdateMe \<lparr>umr_Name = Some ''Robert'', umr_Username = Some ''robert''\<rparr>) signed_in
      = Some (Inr (), w) \<and> stored_ok (db w)"
proof -
  obtain w where run: "serve demo (as_user ''1'')
      (R_UpdateMe \<lparr>umr_Name = Some ''Robert'', umr_Username = Some ''robert''\<rparr>) signed_in = Some (Inr (), w)"
    by (rule renamed_run)
  have start: "stored_ok (db signed_in)" by code_simp
  from service_stores_valid_rows [OF demo_lawful start reachable.run [OF reachable.start run]] run
  show ?thesis by blast
qed

end
