(* ===== verification/Isolation.thy ===== *)
theory Isolation
  imports Access Demo_Runs
begin

text \<open>
  Whose data a request can change: the methods that act for the caller leave every row of every other user in
  the three tables as it is, whatever the request says and whichever connection to the database fails at
  whichever moment; without an identity in the request's metadata they do nothing at all.
\<close>

section \<open>The rows of the others\<close>

definition others :: "uuid \<Rightarrow> database \<Rightarrow> user_row list \<times> token_row list \<times> device_row list" where
  "others i d = (filter (\<lambda>r. u_identity_id r \<noteq> i) (users d), filter (\<lambda>t. t_identity_id t \<noteq> i) (user_api_tokens d),
     filter (\<lambda>v. d_identity_id v \<noteq> i) (user_devices d))"

text \<open>The methods that act for their caller.\<close>

fun own_request :: "request \<Rightarrow> bool" where
  "own_request R_GetMe = True"
| "own_request (R_UpdateMe _) = True"
| "own_request (R_SearchUsers _) = True"
| "own_request (R_CreateAPIToken _) = True"
| "own_request R_ListAPITokens = True"
| "own_request (R_RevokeAPIToken _) = True"
| "own_request (R_CreateDevice _) = True"
| "own_request (R_ListDevices _) = True"
| "own_request (R_DeleteDevice _) = True"
| "own_request _ = False"

section \<open>The statements\<close>

lemma others_update:
  assumes "\<And>r. u_identity_id (f r) = u_identity_id r"
  shows "others i (snd (sql_update_user f i d)) = others i d"
proof -
  have "filter (\<lambda>r. u_identity_id r \<noteq> i) (map (\<lambda>r. if u_identity_id r = i then f r else r) rows)
      = filter (\<lambda>r. u_identity_id r \<noteq> i) rows" for rows
    by (induction rows) (simp_all add: assms)
  then show ?thesis by (simp add: sql_update_user_def others_def split: list.split option.split)
qed

lemma others_token: "t_identity_id t = i \<Longrightarrow> others i (snd (sql_insert_token t d)) = others i d"
  by (simp add: sql_insert_token_def others_def)

lemma others_revoke: "others i (snd (sql_delete_token k i d)) = others i d"
  by (auto simp: sql_delete_token_def others_def Let_def intro: filter_cong)

lemma others_device: "d_identity_id v = i \<Longrightarrow> others i (snd (sql_insert_device v d)) = others i d"
  by (simp add: sql_insert_device_def others_def)

lemma others_remove: "others i (snd (sql_delete_device k i d)) = others i d"
  by (auto simp: sql_delete_device_def others_def Let_def intro: filter_cong)

section \<open>The store\<close>

text \<open>That the rows of the others are \<open>rows\<close> is an invariant of the caller's writes, in the sense of \<open>keeps\<close>.\<close>

lemma others_store:
  assumes "lawful E (\<lambda>d. others i d = rows)"
  shows "within (keeps (\<lambda>d. others i d = rows)) (store_UpdateUser E i update)"
    and "cti_IdentityID token = i \<Longrightarrow> within (keeps (\<lambda>d. others i d = rows)) (store_CreateAPIToken E token)"
    and "within (keeps (\<lambda>d. others i d = rows)) (store_RevokeAPIToken E i k)"
    and "cdi_IdentityID dev = i \<Longrightarrow> within (keeps (\<lambda>d. others i d = rows)) (store_CreateDevice E dev)"
    and "within (keeps (\<lambda>d. others i d = rows)) (store_DeleteDevice E i k)"
proof -
  show "within (keeps (\<lambda>d. others i d = rows)) (store_UpdateUser E i update)"
    unfolding store_UpdateUser_def Let_def update_exec
    by (intro kept.within_rules kept_query_row assms) (simp add: others_update apply_user_update_def)
qed (unfold store_defs, (intro kept.within_rules kept_query_row kept_run_sql assms;
    simp add: others_token others_revoke others_device others_remove)+)

section \<open>The methods\<close>

lemma others_auth:
  "within (keeps I) (resolveClusterRole E c i)"
  unfolding checkClusterAdmin_def resolveClusterRole_def by (intro kept.within_rules kept_ext_call)

lemma caller_run:
  "identityIDFromContext E c = Inr i \<Longrightarrow> caller E c k = k i"
  by (simp add: caller_def fun_eq_iff)

lemma caller_refused:
  "identityIDFromContext E c = Inl err
    \<Longrightarrow> caller E c k w = Some (Inl (Statusf CodeUnauthenticated ''identity not available'' err), w)"
  by (simp add: caller_def)

lemma others_serve:
  assumes "own_request req" and "identityIDFromContext E c = Inr i" and "lawful E (\<lambda>d. others i d = rows)"
  shows "within (keeps (\<lambda>d. others i d = rows)) (serve E c req)"
  using assms(1)
  by (cases req; simp only: own_request.simps; simp only: serve.simps outcome_def GetMe_def UpdateMe_def SearchUsers_def
      CreateAPIToken_def ListAPITokens_def RevokeAPIToken_def CreateDevice_def ListDevices_def DeleteDevice_def
      requested_expiry_def caller_run [OF assms(2)] Let_def;
      intro kept.within_rules others_auth kept_ops kept_ext_call kept_ext_value others_store assms(3); simp)

text \<open>
  C1. A request that acts for its caller cannot touch anybody else: when no other session writes, the rows of all
  other users in the tables of users, tokens and devices are after it what they were before, whatever the request
  asks for, whether it succeeds or fails, and whichever connection to the database fails before or after a
  statement. A request without a valid identity is refused as Unauthenticated before anything happens.
\<close>

theorem request_stays_with_caller:
  assumes "alone E" and "own_request req" and "serve E c req w = Some (r, w')"
  shows "case identityIDFromContext E c of
      Inl err \<Rightarrow> r = Inl (Statusf CodeUnauthenticated ''identity not available'' err) \<and> w' = w
    | Inr i \<Rightarrow> others i (db w') = others i (db w)"
proof (cases "identityIDFromContext E c")
  case (Inl err)
  with assms(2,3) show ?thesis
    by (cases req) (simp_all add: caller_refused outcome_def call_def attempt_def GetMe_def UpdateMe_def SearchUsers_def
      CreateAPIToken_def ListAPITokens_def RevokeAPIToken_def CreateDevice_def ListDevices_def DeleteDevice_def)
next
  case (Inr i)
  have "within (keeps (\<lambda>d. others i d = others i (db w))) (serve E c req)"
    by (rule others_serve [OF assms(2) Inr alone_lawful [OF assms(1)]])
  with assms(3) Inr show ?thesis by (auto simp: within_def keeps_def)
qed

section \<open>Witness\<close>

text \<open>Two users, the second with a token; every statement's connection fails after it took effect.\<close>

definition two_users :: "nat world" where
  "two_users = \<lparr>db = \<lparr>users = map (\<lambda>(i, n). \<lparr>u_identity_id = i, u_oidc_subject = n, u_name = n, u_email = [],
      u_nickname = [], u_username = Some n, u_photo_url = [], u_created_at = 3, u_updated_at = 3\<rparr>) [(1, ''bob''), (2, ''eve'')],
    user_api_tokens = map (\<lambda>(k, i, h). \<lparr>t_id = k, t_identity_id = i, t_name = ''ci'', t_token_hash = h,
      t_token_prefix = ''agyn_abc'', t_expires_at = None, t_created_at = 3, t_last_used_at = None\<rparr>)
        [(20, 1, ''h1''), (21, 2, ''h2'')],
    user_devices = []\<rparr>, ext = 5\<rparr>"

definition unanswering :: "nat env" where
  "unanswering = demo\<lparr>e_session := (\<lambda>x.
    (\<lparr>s_interfere = id, s_now = int x, s_uuid = of_nat x, s_fault = FaultAfter ''connection reset''\<rparr>, x + 1))\<rparr>"

theorem request_stays_with_caller_witness:
  "\<exists>e w e' w'. serve unanswering (as_user ''1'') (R_RevokeAPIToken ''21'') two_users = Some (Inl e, w)
    \<and> others 1 (db w) = others 1 (db two_users)
    \<and> serve unanswering (as_user ''1'') (R_RevokeAPIToken ''20'') two_users = Some (Inl e', w')
    \<and> others 1 (db w') = others 1 (db two_users) \<and> map t_id (user_api_tokens (db w')) = [21]"
proof -
  have "case serve unanswering (as_user ''1'') (R_RevokeAPIToken ''21'') two_users of Some (Inl e, w) \<Rightarrow> True | _ \<Rightarrow> False"
    by code_simp
  then obtain e w where run: "serve unanswering (as_user ''1'') (R_RevokeAPIToken ''21'') two_users = Some (Inl e, w)"
    by (auto split: option.splits prod.splits sum.splits)
  have "case serve unanswering (as_user ''1'') (R_RevokeAPIToken ''20'') two_users of
      Some (Inl e, w) \<Rightarrow> map t_id (user_api_tokens (db w)) = [21] | _ \<Rightarrow> False"
    by code_simp
  then obtain e' w' where run': "serve unanswering (as_user ''1'') (R_RevokeAPIToken ''20'') two_users = Some (Inl e', w')"
      and left: "map t_id (user_api_tokens (db w')) = [21]"
    by (auto split: option.splits prod.splits sum.splits)
  have "alone unanswering" by (simp add: alone_def unanswering_def)
  moreover have "identityIDFromContext unanswering (as_user ''1'') = Inr 1" by code_simp
  ultimately show ?thesis
    using request_stays_with_caller [of unanswering "R_RevokeAPIToken ''21''", OF _ _ run]
      request_stays_with_caller [of unanswering "R_RevokeAPIToken ''20''", OF _ _ run'] run run' left
    by (intro exI [of _ e] exI [of _ w] exI [of _ e'] exI [of _ w']) simp
qed

end
