(* ===== verification/Background.thy ===== *)
theory Background
  imports Device_Liveness Group_Consumer
begin

text \<open>
  The background jobs: the ticker of \<open>internal/server/device_liveness.go\<close>, and the goroutine of
  \<open>internal/server/group_consumer.go\<close> as it runs against NATS. The NATS client is a parameter: a record
  of its operations on a state of their own. The goroutine is a function of what happens to it, turn by
  turn; it is shown to be a run of the step relation of \<open>Group_Consumer\<close>, and to hold a connection
  exactly while it consumes.
\<close>

definition StartDeviceLivenessPolling :: "'x env \<Rightarrow> duration \<Rightarrow> ticker_event list \<Rightarrow> ('x world, unit) go" where
  "StartDeviceLivenessPolling E interval events = run_ticker interval (PollDeviceLiveness E background) events"

section \<open>NATS\<close>

type_synonym connection = nat
type_synonym subscription = nat

record 'n nats =
  n_connect :: "string \<Rightarrow> 'n \<Rightarrow> (go_err + connection) \<times> 'n"
  n_jetstream :: "connection \<Rightarrow> 'n \<Rightarrow> (go_err + unit) \<times> 'n"
  n_subscribe :: "connection \<Rightarrow> string \<Rightarrow> string \<Rightarrow> 'n \<Rightarrow> (go_err + subscription) \<times> 'n"
  n_unsubscribe :: "subscription \<Rightarrow> 'n \<Rightarrow> (go_err + unit) \<times> 'n"
  n_close :: "connection \<Rightarrow> 'n \<Rightarrow> 'n"

definition nats_call :: "('n \<Rightarrow> (go_err + 'a) \<times> 'n) \<Rightarrow> ('n, 'a) go" where
  "nats_call f n = Some (f n)"

definition close_connection :: "'n nats \<Rightarrow> connection \<Rightarrow> ('n, unit) go" where
  "close_connection N conn n = Some (Inr (), n_close N conn n)"

definition ConnectNATS :: "'n nats \<Rightarrow> string \<Rightarrow> ('n, connection) go" where
  "ConnectNATS N url = call (nats_call (n_connect N url)) (Wrap ''connect to nats'') ret"

text \<open>The callback given to \<open>Subscribe\<close> is \<open>handle_message\<close>.\<close>

definition StartGroupMembershipConsumer :: "'n nats \<Rightarrow> connection \<Rightarrow> string \<Rightarrow> ('n, subscription) go" where
  "StartGroupMembershipConsumer N conn durable =
    call (nats_call (n_jetstream N conn)) (Wrap ''create jetstream context'') (\<lambda>_.
    call (nats_call (n_subscribe N conn groupMembershipSubject durable))
      (Wrap ''subscribe to group membership events'') ret)"

record natsGroupMembershipSubscription =
  nats_conn :: connection
  nats_subscription :: subscription

text \<open>The subscriber that \<open>StartGroupMembershipConsumerLoop\<close> hands to the loop.\<close>

definition nats_subscriber :: "'n nats \<Rightarrow> string \<Rightarrow> string \<Rightarrow> ('n, natsGroupMembershipSubscription) go" where
  "nats_subscriber N url durable =
    call (ConnectNATS N url) id (\<lambda>conn.
    attempt (StartGroupMembershipConsumer N conn durable) (\<lambda>subscribed.
    case subscribed of
      Inl err \<Rightarrow> call (close_connection N conn) id (\<lambda>_. fail err)
    | Inr s \<Rightarrow> ret \<lparr>nats_conn = conn, nats_subscription = s\<rparr>))"

definition Unsubscribe :: "'n nats \<Rightarrow> natsGroupMembershipSubscription \<Rightarrow> ('n, unit) go" where
  "Unsubscribe N s =
    attempt (nats_call (n_unsubscribe N (nats_subscription s))) (\<lambda>err.
    call (close_connection N (nats_conn s)) id (\<lambda>_. lift err))"

section \<open>The goroutine\<close>

text \<open>
  What happens in a turn of the loop: whether the context has ended at its top, and whether it ends while the
  goroutine waits, for the end of its subscription or for the retry.
\<close>

record turn =
  ended_before :: bool
  ended_waiting :: bool

text \<open>Where the goroutine is after some turns, with its delay and the number of failed attempts.\<close>

fun StartGroupMembershipConsumerLoopWithSubscriber ::
  "('n, 's) go \<Rightarrow> ('s \<Rightarrow> ('n, unit) go) \<Rightarrow> duration \<Rightarrow> nat \<Rightarrow> turn list \<Rightarrow> ('n, consumer_at \<times> duration \<times> nat) go" where
  "StartGroupMembershipConsumerLoopWithSubscriber subscribe unsubscribe delay failures [] n =
    ret (Top, delay, failures) n"
| "StartGroupMembershipConsumerLoopWithSubscriber subscribe unsubscribe delay failures (t # ts) n =
    (if ended_before t then ret (Gone, delay, failures) n
     else
       attempt subscribe (\<lambda>r.
       case r of
         Inr s \<Rightarrow>
           if \<not> ended_waiting t then ret (Consuming, delay, failures)
           else attempt (unsubscribe s) (\<lambda>_. ret (Gone, delay, failures))
       | Inl err \<Rightarrow>
           if ended_waiting t then ret (Gone, delay, failures + 1)
           else StartGroupMembershipConsumerLoopWithSubscriber subscribe unsubscribe
             (nextGroupMembershipRetryDelay delay) (failures + 1) ts) n)"

definition StartGroupMembershipConsumerLoop ::
  "'n nats \<Rightarrow> string \<Rightarrow> string \<Rightarrow> turn list \<Rightarrow> ('n, consumer_at \<times> duration \<times> nat) go" where
  "StartGroupMembershipConsumerLoop N url durable =
    StartGroupMembershipConsumerLoopWithSubscriber (nats_subscriber N url durable) (Unsubscribe N)
      groupMembershipRetryInitial 0"

section \<open>It is a run of the step relation\<close>

lemma steps_trans: "consumer_step a b \<Longrightarrow> consumer_step\<^sup>*\<^sup>* b c \<Longrightarrow> consumer_step\<^sup>*\<^sup>* a c"
  by (rule converse_rtranclp_into_rtranclp)

lemma cancelled_steps:
  "consumer_step\<^sup>*\<^sup>* s (s\<lparr>cancelled := True\<rparr>)"
  by (rule r_into_rtranclp) (rule consumer_step.cancel)

text \<open>One turn from the top, by how it goes.\<close>

lemma turn_steps:
  assumes "at s = Top" and "\<not> cancelled s"
  shows "consumer_step\<^sup>*\<^sup>* s (s\<lparr>cancelled := True, at := Gone\<rparr>)"
    and "consumer_step\<^sup>*\<^sup>* s (s\<lparr>at := Consuming, live := live s + 1\<rparr>)"
    and "consumer_step\<^sup>*\<^sup>* s (s\<lparr>at := Gone, live := live s, cancelled := True\<rparr>)"
    and "consumer_step\<^sup>*\<^sup>* s (s\<lparr>at := Gone, attempts := attempts s + 1, cancelled := True\<rparr>)"
    and "consumer_step\<^sup>*\<^sup>* s (s\<lparr>at := Top, attempts := attempts s + 1,
      retryDelay := nextGroupMembershipRetryDelay (retryDelay s)\<rparr>)"
proof -
  let ?sub = "s\<lparr>at := Subscribing\<rparr>"
  have subscribing: "consumer_step s ?sub" using assms by (rule consumer_step.top_try)
  have "consumer_step (s\<lparr>cancelled := True\<rparr>) (s\<lparr>cancelled := True, at := Gone\<rparr>)"
    using consumer_step.top_done [of "s\<lparr>cancelled := True\<rparr>"] assms by (cases s) simp
  then show "consumer_step\<^sup>*\<^sup>* s (s\<lparr>cancelled := True, at := Gone\<rparr>)"
    using cancelled_steps [of s] by (rule rtranclp.rtrancl_into_rtrancl [rotated])
  have "consumer_step ?sub (s\<lparr>at := Consuming, live := live s + 1\<rparr>)"
    using consumer_step.subscribed [of ?sub] by simp
  then show consuming: "consumer_step\<^sup>*\<^sup>* s (s\<lparr>at := Consuming, live := live s + 1\<rparr>)"
    using subscribing by (meson r_into_rtranclp steps_trans)
  have "consumer_step (s\<lparr>at := Consuming, live := live s + 1, cancelled := True\<rparr>) (s\<lparr>at := Gone, live := live s, cancelled := True\<rparr>)"
    using consumer_step.consuming_done [of "s\<lparr>at := Consuming, live := live s + 1, cancelled := True\<rparr>"] by (cases s) simp
  moreover have "consumer_step (s\<lparr>at := Consuming, live := live s + 1\<rparr>) (s\<lparr>at := Consuming, live := live s + 1, cancelled := True\<rparr>)"
    by (rule consumer_step.cancel)
  ultimately show "consumer_step\<^sup>*\<^sup>* s (s\<lparr>at := Gone, live := live s, cancelled := True\<rparr>)"
    using consuming by (meson rtranclp.rtrancl_into_rtrancl)
  have backoff: "consumer_step ?sub (s\<lparr>at := Backoff, attempts := attempts s + 1\<rparr>)"
    using consumer_step.unavailable [of ?sub] by simp
  have "consumer_step (s\<lparr>at := Backoff, attempts := attempts s + 1, cancelled := True\<rparr>)
      (s\<lparr>at := Gone, attempts := attempts s + 1, cancelled := True\<rparr>)"
    using consumer_step.backoff_done [of "s\<lparr>at := Backoff, attempts := attempts s + 1, cancelled := True\<rparr>"] by (cases s) simp
  moreover have "consumer_step (s\<lparr>at := Backoff, attempts := attempts s + 1\<rparr>) (s\<lparr>at := Backoff, attempts := attempts s + 1, cancelled := True\<rparr>)"
    by (rule consumer_step.cancel)
  ultimately show "consumer_step\<^sup>*\<^sup>* s (s\<lparr>at := Gone, attempts := attempts s + 1, cancelled := True\<rparr>)"
    using subscribing backoff by (meson r_into_rtranclp steps_trans)
  have "consumer_step (s\<lparr>at := Backoff, attempts := attempts s + 1\<rparr>)
      (s\<lparr>at := Top, attempts := attempts s + 1, retryDelay := nextGroupMembershipRetryDelay (retryDelay s)\<rparr>)"
    using consumer_step.retry [of "s\<lparr>at := Backoff, attempts := attempts s + 1\<rparr>"] by (cases s) simp
  then show "consumer_step\<^sup>*\<^sup>* s (s\<lparr>at := Top, attempts := attempts s + 1,
      retryDelay := nextGroupMembershipRetryDelay (retryDelay s)\<rparr>)"
    using subscribing backoff by (meson r_into_rtranclp steps_trans)
qed

text \<open>How a turn of the loop ends, for any subscriber that always returns.\<close>

lemma loop_turn:
  "StartGroupMembershipConsumerLoopWithSubscriber subscribe unsubscribe delay failures (t # ts) n =
    (if ended_before t then Some (Inr (Gone, delay, failures), n)
     else case subscribe n of
       None \<Rightarrow> None
     | Some (Inr s, n1) \<Rightarrow>
         if \<not> ended_waiting t then Some (Inr (Consuming, delay, failures), n1)
         else (case unsubscribe s n1 of None \<Rightarrow> None | Some (_, n2) \<Rightarrow> Some (Inr (Gone, delay, failures), n2))
     | Some (Inl err, n1) \<Rightarrow>
         if ended_waiting t then Some (Inr (Gone, delay, failures + 1), n1)
         else StartGroupMembershipConsumerLoopWithSubscriber subscribe unsubscribe
           (nextGroupMembershipRetryDelay delay) (failures + 1) ts n1)"
proof (cases "subscribe n")
  case (Some out)
  obtain r n1 where "out = (r, n1)" by (cases out)
  with Some show ?thesis by (cases r) (simp_all add: attempt_def ret_def split: option.split)
qed (simp add: attempt_def ret_def)

section \<open>The connections it holds\<close>

text \<open>
  What the loop relies on of the NATS client: a connection it opens is a new one, a failed attempt leaves none
  behind, closing a connection closes it, and nothing else opens or closes one.
\<close>

definition nats_tracks :: "'n nats \<Rightarrow> ('n \<Rightarrow> connection set) \<Rightarrow> bool" where
  "nats_tracks N conns \<longleftrightarrow>
    (\<forall>url n. case n_connect N url n of
       (Inl _, n') \<Rightarrow> conns n' = conns n
     | (Inr c, n') \<Rightarrow> c \<notin> conns n \<and> conns n' = insert c (conns n))
    \<and> (\<forall>c n. conns (snd (n_jetstream N c n)) = conns n)
    \<and> (\<forall>c subject durable n. conns (snd (n_subscribe N c subject durable n)) = conns n)
    \<and> (\<forall>s n. conns (snd (n_unsubscribe N s n)) = conns n)
    \<and> (\<forall>c n. conns (n_close N c n) = conns n - {c})"

lemma connect_tracks:
  assumes "nats_tracks N conns" and "n_connect N url n = (r, n')"
  shows "case r of Inl _ \<Rightarrow> conns n' = conns n | Inr c \<Rightarrow> c \<notin> conns n \<and> conns n' = insert c (conns n)"
proof -
  have "case n_connect N url n of
       (Inl _, n') \<Rightarrow> conns n' = conns n
     | (Inr c, n') \<Rightarrow> c \<notin> conns n \<and> conns n' = insert c (conns n)"
    using assms(1) [unfolded nats_tracks_def, THEN conjunct1] by simp
  with assms(2) show ?thesis by (auto split: sum.splits)
qed

lemma nats_keeps:
  assumes "nats_tracks N conns"
  shows "n_jetstream N c n = (r1, n') \<Longrightarrow> conns n' = conns n"
    and "n_subscribe N c subject durable n = (r2, n') \<Longrightarrow> conns n' = conns n"
    and "n_unsubscribe N s n = (r3, n') \<Longrightarrow> conns n' = conns n"
    and "conns (n_close N c n) = conns n - {c}"
proof -
  have law: "conns (snd (n_jetstream N c n)) = conns n" "conns (snd (n_subscribe N c subject durable n)) = conns n"
      "conns (snd (n_unsubscribe N s n)) = conns n" "conns (n_close N c n) = conns n - {c}"
    using assms [unfolded nats_tracks_def, THEN conjunct2] by simp_all
  then show "n_jetstream N c n = (r1, n') \<Longrightarrow> conns n' = conns n"
    and "n_subscribe N c subject durable n = (r2, n') \<Longrightarrow> conns n' = conns n"
    and "n_unsubscribe N s n = (r3, n') \<Longrightarrow> conns n' = conns n"
    and "conns (n_close N c n) = conns n - {c}"
    by simp_all
qed

text \<open>A subscriber that fails has closed what it opened.\<close>

lemma subscriber_tracks:
  assumes "nats_tracks N conns"
  obtains (refused) err n' where "nats_subscriber N url durable n = Some (Inl err, n')" "conns n' = conns n"
  | (held) s n' where "nats_subscriber N url durable n = Some (Inr s, n')"
      "nats_conn s \<notin> conns n" "conns n' = insert (nats_conn s) (conns n)"
proof -
  obtain r n1 where conn: "n_connect N url n = (r, n1)" by fastforce
  show ?thesis
  proof (cases r)
    case (Inl err)
    with connect_tracks [OF assms conn] conn show ?thesis
      by (intro refused [of "Wrap ''connect to nats'' err" n1]) (auto simp: nats_subscriber_def ConnectNATS_def call_def nats_call_def
          attempt_def fail_def)
  next
    case (Inr c)
    with connect_tracks [OF assms conn] have fresh: "c \<notin> conns n" "conns n1 = insert c (conns n)" by auto
    obtain r2 n2 where js: "n_jetstream N c n1 = (r2, n2)" by fastforce
    obtain r3 n3 where sub: "n_subscribe N c groupMembershipSubject durable n2 = (r3, n3)" by fastforce
    note kept = nats_keeps(1) [OF assms js] nats_keeps(2) [OF assms sub] nats_keeps(4) [OF assms]
    have run: "nats_subscriber N url durable n =
      (case r2 of
         Inl err \<Rightarrow> Some (Inl (Wrap ''create jetstream context'' err), n_close N c n2)
       | Inr _ \<Rightarrow>
          (case r3 of
             Inl err \<Rightarrow> Some (Inl (Wrap ''subscribe to group membership events'' err), n_close N c n3)
           | Inr s \<Rightarrow> Some (Inr \<lparr>nats_conn = c, nats_subscription = s\<rparr>, n3)))"
      using conn Inr js sub
      by (auto simp: nats_subscriber_def ConnectNATS_def StartGroupMembershipConsumer_def call_def nats_call_def
          attempt_def ret_def fail_def close_connection_def split: sum.splits)
    show ?thesis
    proof (cases "\<exists>s. r2 = Inr () \<and> r3 = Inr s")
      case True
      then obtain s where "nats_subscriber N url durable n = Some (Inr \<lparr>nats_conn = c, nats_subscription = s\<rparr>, n3)"
        using run by auto
      from held [OF this] kept fresh show ?thesis by simp
    next
      case False
      then obtain err m where "nats_subscriber N url durable n = Some (Inl err, n_close N c m)" and "m = n2 \<or> m = n3"
        using run by (cases r2; cases r3) auto
      from refused [OF this(1)] this(2) kept fresh show ?thesis by auto
    qed
  qed
qed

lemma unsubscribe_closes:
  assumes "nats_tracks N conns"
  obtains r n' where "Unsubscribe N s n = Some (r, n')" "conns n' = conns n - {nats_conn s}"
proof -
  obtain r m where out: "n_unsubscribe N (nats_subscription s) n = (r, m)" by fastforce
  have "Unsubscribe N s n = Some (r, n_close N (nats_conn s) m)"
    by (simp add: Unsubscribe_def attempt_def nats_call_def call_def close_connection_def lift_def out)
  then show ?thesis
    using that nats_keeps(3) [OF assms out] nats_keeps(4) [OF assms] by simp
qed

lemma loop_is_a_run:
  assumes "nats_tracks N conns" and "at s = Top" "\<not> cancelled s" "live s = 0"
  shows "\<exists>p delay failures n' s' held.
    StartGroupMembershipConsumerLoopWithSubscriber (nats_subscriber N url durable) (Unsubscribe N)
      (retryDelay s) (attempts s) turns n = Some (Inr (p, delay, failures), n')
    \<and> consumer_step\<^sup>*\<^sup>* s s' \<and> at s' = p \<and> retryDelay s' = delay \<and> attempts s' = failures
    \<and> conns n' = conns n \<union> held \<and> held \<inter> conns n = {} \<and> finite held \<and> card held = live s'"
  using assms(2-4)
proof (induction turns arbitrary: s n)
  case Nil
  then show ?case
    by (intro exI [of _ Top] exI [of _ "retryDelay s"] exI [of _ "attempts s"] exI [of _ n] exI [of _ s]
        exI [of _ "{}"]) (simp add: ret_def)
next
  case (Cons t ts)
  note steps = turn_steps [OF Cons.prems(1,2)]
  have ends: ?case
    if "StartGroupMembershipConsumerLoopWithSubscriber (nats_subscriber N url durable) (Unsubscribe N)
        (retryDelay s) (attempts s) (t # ts) n = Some (Inr (at s', retryDelay s', attempts s'), n')"
      and "consumer_step\<^sup>*\<^sup>* s s'" and "conns n' = conns n \<union> held" "held \<inter> conns n = {}" "finite held"
      "card held = live s'" for s' n' held
    using that by (intro exI conjI) (assumption | rule refl)+
  show ?case
  proof (cases "ended_before t")
    case True
    with ends [OF _ steps(1), of n "{}"] Cons.prems show ?thesis by (simp add: loop_turn del: StartGroupMembershipConsumerLoopWithSubscriber.simps)
  next
    case open_top: False
    from assms(1) show ?thesis
    proof (cases rule: subscriber_tracks [where url = url and durable = durable and n = n])
      case (refused err n1)
      show ?thesis
      proof (cases "ended_waiting t")
        case True
        with ends [OF _ steps(4), of n1 "{}"] Cons.prems open_top refused show ?thesis by (simp add: loop_turn del: StartGroupMembershipConsumerLoopWithSubscriber.simps)
      next
        case False
        let ?s = "s\<lparr>at := Top, attempts := attempts s + 1, retryDelay := nextGroupMembershipRetryDelay (retryDelay s)\<rparr>"
        from Cons.IH [of ?s n1] Cons.prems obtain p delay failures n' s' held where
          "StartGroupMembershipConsumerLoopWithSubscriber (nats_subscriber N url durable) (Unsubscribe N)
            (nextGroupMembershipRetryDelay (retryDelay s)) (attempts s + 1) ts n1 = Some (Inr (p, delay, failures), n')"
          "consumer_step\<^sup>*\<^sup>* ?s s'" "at s' = p" "retryDelay s' = delay" "attempts s' = failures"
          "conns n' = conns n1 \<union> held" "held \<inter> conns n1 = {}" "finite held" "card held = live s'"
          by auto
        with ends [OF _ rtranclp_trans [OF steps(5)], of s' n' held] open_top refused False show ?thesis
          by (simp add: loop_turn del: StartGroupMembershipConsumerLoopWithSubscriber.simps)
      qed
    next
      case (held sub n1)
      show ?thesis
      proof (cases "ended_waiting t")
        case True
        obtain r n2 where "Unsubscribe N sub n1 = Some (r, n2)" "conns n2 = conns n1 - {nats_conn sub}"
          by (rule unsubscribe_closes [OF assms(1), of sub n1])
        with ends [OF _ steps(3), of n2 "{}"] Cons.prems open_top held True show ?thesis by (simp add: loop_turn del: StartGroupMembershipConsumerLoopWithSubscriber.simps)
      next
        case False
        with ends [OF _ steps(2), of n1 "{nats_conn sub}"] Cons.prems open_top held show ?thesis
          by (simp add: loop_turn del: StartGroupMembershipConsumerLoopWithSubscriber.simps)
      qed
    qed
  qed
qed

text \<open>
  C31. Against a NATS server that may refuse any call, the consumer goroutine always goes on, in a run of the
  step relation of the abstract consumer, with the place, the delay and the number of failed attempts of that
  run's end; and the connections it has opened and not closed are as many as the abstract consumer's live
  subscriptions, the ones of the others being left alone: no failed attempt and no end of the goroutine leaks
  a connection.
\<close>

theorem consumer_refines_steps:
  assumes "nats_tracks N conns"
  shows "\<exists>p delay failures n' s held.
    StartGroupMembershipConsumerLoop N url durable turns n = Some (Inr (p, delay, failures), n')
    \<and> consumer_step\<^sup>*\<^sup>* consumer_start s \<and> at s = p \<and> retryDelay s = delay \<and> attempts s = failures
    \<and> conns n' = conns n \<union> held \<and> held \<inter> conns n = {} \<and> finite held \<and> card held = live s"
  using loop_is_a_run [OF assms, of consumer_start url durable turns n]
  by (simp add: StartGroupMembershipConsumerLoop_def consumer_start_def)

text \<open>
  A server for the witness: its open connections, and whether it takes the next subscriptions; it takes every
  connection, numbering it past the open ones.
\<close>

definition demo_nats :: "(connection list \<times> bool list) nats" where
  "demo_nats = \<lparr>
    n_connect = (\<lambda>url (used, script). (Inr (Suc (sum_list used)), (Suc (sum_list used) # used, script))),
    n_jetstream = (\<lambda>c n. (Inr (), n)),
    n_subscribe = (\<lambda>c subject durable (used, script).
      case script of
        False # rest \<Rightarrow> (Inl (Errorf ''unavailable''), (used, rest))
      | _ \<Rightarrow> (Inr 0, (used, script))),
    n_unsubscribe = (\<lambda>s n. (Inr (), n)),
    n_close = (\<lambda>c (used, script). (removeAll c used, script))\<rparr>"

lemma demo_nats_tracks: "nats_tracks demo_nats (\<lambda>n. set (fst n))"
proof -
  have "Suc (sum_list used) \<notin> set used" for used :: "nat list"
    using member_le_sum_list [of "Suc (sum_list used)" used] by auto
  then show ?thesis
    by (simp add: nats_tracks_def demo_nats_def split: prod.splits list.splits bool.splits)
qed

theorem consumer_refines_steps_witness:
  "\<exists>s held. consumer_step\<^sup>*\<^sup>* consumer_start s \<and> at s = Consuming \<and> attempts s = 1
    \<and> {8, 9} = {8 :: connection} \<union> held \<and> 8 \<notin> held \<and> card held = live s
    \<and> StartGroupMembershipConsumerLoop demo_nats ''nats://nats:4222'' ''users-group-sync''
        [\<lparr>ended_before = False, ended_waiting = False\<rparr>, \<lparr>ended_before = False, ended_waiting = False\<rparr>]
        ([8], [False]) = Some (Inr (Consuming, 2000000000, 1), ([9, 8], []))"
proof -
  let ?turns = "[\<lparr>ended_before = False, ended_waiting = False\<rparr>, \<lparr>ended_before = False, ended_waiting = False\<rparr>]"
  have run: "StartGroupMembershipConsumerLoop demo_nats ''nats://nats:4222'' ''users-group-sync'' ?turns ([8], [False])
      = Some (Inr (Consuming, 2000000000, 1), ([9, 8], []))"
    by code_simp
  from consumer_refines_steps [OF demo_nats_tracks, of "''nats://nats:4222''" "''users-group-sync''" ?turns "([8], [False])"]
  show ?thesis unfolding run by (simp add: insert_commute) blast
qed

end
