(* ===== verification/Config.thy ===== *)
theory Config
  imports Go_Monad
begin

text \<open>
  \<open>internal/config/config.go\<close>: the configuration from the environment variables, with
  \<open>time.ParseDuration\<close> of the standard library as it is written there. Only the rounding of a
  fraction, which the library computes in floating point, is an argument: \<open>frac f unit scale\<close> is
  \<open>uint64(float64(f) * (float64(unit) / scale))\<close>.
\<close>

section \<open>time.ParseDuration\<close>

definition is_digit :: "char \<Rightarrow> bool" where
  "is_digit c \<longleftrightarrow> CHR ''0'' \<le> c \<and> c \<le> CHR ''9''"

definition digit_value :: "char \<Rightarrow> nat" where
  "digit_value c = of_char c - 48"

text \<open>The largest magnitude, \<open>1 << 63\<close>.\<close>

abbreviation duration_limit :: nat where
  "duration_limit \<equiv> 9223372036854775808"

text \<open>\<open>leadingInt\<close>: \<open>None\<close> for an overflow.\<close>

fun leading_int :: "string \<Rightarrow> nat \<Rightarrow> (nat \<times> string) option" where
  "leading_int [] x = Some (x, [])"
| "leading_int (c # s) x =
    (if \<not> is_digit c then Some (x, c # s)
     else if x > duration_limit div 10 then None
     else
       let y = x * 10 + digit_value c
       in if y > duration_limit then None else leading_int s y)"

text \<open>\<open>leadingFraction\<close>: digits past an overflow are skipped; the scale is a power of ten.\<close>

fun leading_fraction :: "string \<Rightarrow> nat \<Rightarrow> nat \<Rightarrow> bool \<Rightarrow> nat \<times> nat \<times> string" where
  "leading_fraction [] x scale overflow = (x, scale, [])"
| "leading_fraction (c # s) x scale overflow =
    (if \<not> is_digit c then (x, scale, c # s)
     else if overflow then leading_fraction s x scale overflow
     else if x > (duration_limit - 1) div 10 then leading_fraction s x scale True
     else
       let y = x * 10 + digit_value c
       in if y > duration_limit then leading_fraction s x scale True
          else leading_fraction s y (scale * 10) overflow)"

text \<open>\<open>unitMap\<close>; the micro sign is U+00B5 or U+03BC in UTF-8.\<close>

definition unit_map :: "string \<Rightarrow> nat option" where
  "unit_map u =
    (if u = ''ns'' then Some 1
     else if u = ''us'' then Some 1000
     else if u = [CHR 0xC2, CHR 0xB5, CHR ''s''] then Some 1000
     else if u = [CHR 0xCE, CHR 0xBC, CHR ''s''] then Some 1000
     else if u = ''ms'' then Some 1000000
     else if u = ''s'' then Some 1000000000
     else if u = ''m'' then Some 60000000000
     else if u = ''h'' then Some 3600000000000
     else None)"

definition unit_char :: "char \<Rightarrow> bool" where
  "unit_char c \<longleftrightarrow> \<not> (c = CHR ''.'' \<or> is_digit c)"

text \<open>One number and its unit: the nanoseconds, and the text after it.\<close>

definition duration_item :: "(nat \<Rightarrow> nat \<Rightarrow> nat \<Rightarrow> nat) \<Rightarrow> string \<Rightarrow> (nat \<times> string) option" where
  "duration_item frac s =
    (if \<not> (s \<noteq> [] \<and> (hd s = CHR ''.'' \<or> is_digit (hd s))) then None
     else
       Option.bind (leading_int s 0) (\<lambda>(v, s1).
       let pre = (length s1 \<noteq> length s);
           dot = (s1 \<noteq> [] \<and> hd s1 = CHR ''.'');
           (f, scale, s2) = (if dot then leading_fraction (tl s1) 0 1 False else (0, 1, s1));
           post = (dot \<and> length s2 \<noteq> length (tl s1));
           u = takeWhile unit_char s2;
           s3 = dropWhile unit_char s2
       in if \<not> pre \<and> \<not> post then None
          else if u = [] then None
          else
            Option.bind (unit_map u) (\<lambda>unit.
            if v > duration_limit div unit then None
            else
              let v1 = v * unit;
                  v2 = (if f > 0 then v1 + frac f unit scale else v1)
              in if f > 0 \<and> v2 > duration_limit then None else Some (v2, s3))))"

text \<open>
  The loop over the items. Every item takes at least one character, so as many turns as the text has
  characters are enough; \<open>None\<close> is an error.
\<close>

fun duration_items :: "(nat \<Rightarrow> nat \<Rightarrow> nat \<Rightarrow> nat) \<Rightarrow> nat \<Rightarrow> string \<Rightarrow> nat \<Rightarrow> nat option" where
  "duration_items frac fuel [] d = Some d"
| "duration_items frac 0 (c # s) d = None"
| "duration_items frac (Suc fuel) (c # s) d =
    Option.bind (duration_item frac (c # s)) (\<lambda>(v, rest).
    if d + v > duration_limit then None else duration_items frac fuel rest (d + v))"

definition ParseDuration :: "(nat \<Rightarrow> nat \<Rightarrow> nat \<Rightarrow> nat) \<Rightarrow> string \<Rightarrow> go_err + int" where
  "ParseDuration frac orig =
    (let signed = (orig \<noteq> [] \<and> (hd orig = CHR ''-'' \<or> hd orig = CHR ''+''));
         neg = (signed \<and> hd orig = CHR ''-'');
         s = (if signed then tl orig else orig);
         invalid = Inl (Errorf (''time: invalid duration '' @ orig))
     in if s = ''0'' then Inr 0
        else if s = [] then invalid
        else case duration_items frac (length s) s 0 of
          None \<Rightarrow> invalid
        | Some d \<Rightarrow>
            if neg then Inr (- int d)
            else if d > duration_limit - 1 then invalid
            else Inr (int d))"

section \<open>FromEnv\<close>

record config =
  GRPCAddress :: string
  DatabaseURL :: string
  AuthorizationAddress :: string
  IdentityAddress :: string
  ZitiManagementAddress :: string
  GroupsAddress :: string
  NATSURL :: string
  GroupSyncDurable :: string
  ReconciliationInterval :: int
  DeviceLivenessInterval :: int

definition or_default :: "string \<Rightarrow> string \<Rightarrow> string" where
  "or_default v d = (if v = [] then d else v)"

definition FromEnv :: "(nat \<Rightarrow> nat \<Rightarrow> nat \<Rightarrow> nat) \<Rightarrow> (string \<Rightarrow> string) \<Rightarrow> go_err + config" where
  "FromEnv frac getenv =
    (if getenv ''DATABASE_URL'' = [] then Inl (Errorf ''DATABASE_URL must be set'')
     else
       (case ParseDuration frac (or_default (getenv ''GROUP_SYNC_RECONCILIATION_INTERVAL'') ''60s'') of
          Inl err \<Rightarrow> Inl (Wrap ''GROUP_SYNC_RECONCILIATION_INTERVAL'' err)
        | Inr reconciliation \<Rightarrow>
            (case ParseDuration frac (or_default (getenv ''DEVICE_LIVENESS_INTERVAL'') ''30s'') of
               Inl err \<Rightarrow> Inl (Wrap ''DEVICE_LIVENESS_INTERVAL'' err)
             | Inr liveness \<Rightarrow>
                 Inr \<lparr>GRPCAddress = or_default (getenv ''GRPC_ADDRESS'') '':50051'',
                      DatabaseURL = getenv ''DATABASE_URL'',
                      AuthorizationAddress = or_default (getenv ''AUTHORIZATION_ADDRESS'') ''authorization:50051'',
                      IdentityAddress = or_default (getenv ''IDENTITY_ADDRESS'') ''identity:50051'',
                      ZitiManagementAddress = or_default (getenv ''ZITI_MANAGEMENT_ADDRESS'') ''ziti-management:50051'',
                      GroupsAddress = or_default (getenv ''GROUPS_ADDRESS'') ''groups:50051'',
                      NATSURL = or_default (getenv ''NATS_URL'') ''nats://nats:4222'',
                      GroupSyncDurable = or_default (getenv ''GROUP_SYNC_DURABLE'') ''users-group-sync'',
                      ReconciliationInterval = reconciliation,
                      DeviceLivenessInterval = liveness\<rparr>)))"

section \<open>Facts\<close>

lemma leading_int_shorter: "leading_int s x = Some (v, r) \<Longrightarrow> length r \<le> length s"
  by (induction s x rule: leading_int.induct) (auto simp: Let_def split: if_splits)

lemma leading_int_bound: "leading_int s x = Some (v, r) \<Longrightarrow> x \<le> duration_limit \<Longrightarrow> v \<le> duration_limit"
  by (induction s x rule: leading_int.induct) (auto simp: Let_def split: if_splits)

lemma leading_fraction_shorter: "leading_fraction s x sc ov = (f, sc', r) \<Longrightarrow> length r \<le> length s"
  by (induction s x sc ov rule: leading_fraction.induct) (auto simp: Let_def split: if_splits)

lemma dropWhile_shorter: "takeWhile p s \<noteq> [] \<Longrightarrow> length (dropWhile p s) < length s"
  by (cases s) (auto simp: length_dropWhile_le le_imp_less_Suc split: if_splits)

text \<open>An item takes characters away, so the fuel does not run out before the text does.\<close>

lemma duration_item_shorter: "duration_item frac s = Some (v, r) \<Longrightarrow> length r < length s"
proof -
  assume item: "duration_item frac s = Some (v, r)"
  then obtain v1 s1 where l: "leading_int s 0 = Some (v1, s1)"
    by (auto simp: duration_item_def split: if_splits Option.bind_splits)
  obtain f sc s2 where s2: "(if s1 \<noteq> [] \<and> hd s1 = CHR ''.'' then leading_fraction (tl s1) 0 1 False else (0, 1, s1)) = (f, sc, s2)"
    by (cases "if s1 \<noteq> [] \<and> hd s1 = CHR ''.'' then leading_fraction (tl s1) 0 1 False else (0, 1, s1)")
  have "length s2 \<le> length s1"
    using s2 leading_fraction_shorter [of "tl s1"] by (fastforce split: if_splits)
  moreover have "length s1 \<le> length s" using l by (rule leading_int_shorter)
  moreover have "takeWhile unit_char s2 \<noteq> [] \<and> r = dropWhile unit_char s2"
    using item l s2 by (auto simp: duration_item_def Let_def split: if_splits Option.bind_splits)
  ultimately show ?thesis using dropWhile_shorter [of unit_char s2] by auto
qed

lemma duration_items_fuel:
  "length s \<le> fuel \<Longrightarrow> length s \<le> fuel' \<Longrightarrow> duration_items frac fuel s d = duration_items frac fuel' s d"
proof (induction frac fuel s d arbitrary: fuel' rule: duration_items.induct)
  case (3 frac fuel c s d)
  from "3.prems" obtain k where k: "fuel' = Suc k" by (cases fuel') auto
  have "duration_items frac fuel rest (d + v) = duration_items frac k rest (d + v)"
    if "duration_item frac (c # s) = Some (v, rest)" "\<not> d + v > duration_limit" for v rest
    using "3.IH" [OF that(1) refl that(2), of k] duration_item_shorter [OF that(1)] "3.prems" k by simp
  then show ?case by (auto simp: k split: Option.bind_splits)
qed auto

text \<open>A decimal number and a unit.\<close>

lemma digit_chars: "d < 10 \<Longrightarrow> is_digit (digit_char d) \<and> digit_value (digit_char d) = d"
proof -
  have "\<forall>d \<in> {0..<10}. is_digit (digit_char d) \<and> digit_value (digit_char d) = d" by code_simp
  then show "d < 10 \<Longrightarrow> is_digit (digit_char d) \<and> digit_value (digit_char d) = d" by simp
qed

lemma leading_int_digits:
  assumes "u \<noteq> []" and "\<not> is_digit (hd u)"
  shows "\<forall>d \<in> set ds. d < 10 \<Longrightarrow> x \<le> duration_limit \<Longrightarrow> leading_int (map digit_char (rev ds) @ u) x =
    (if x * 10 ^ length ds + of_digits 10 ds \<le> duration_limit then Some (x * 10 ^ length ds + of_digits 10 ds, u) else None)"
proof (induction ds arbitrary: x rule: rev_induct)
  case Nil
  with assms show ?case by (cases u) auto
next
  case (snoc d ds)
  let ?y = "x * 10 + d"
  have total: "x * 10 ^ length (ds @ [d]) + of_digits 10 (ds @ [d]) = ?y * 10 ^ length ds + of_digits 10 ds"
    by (simp add: of_digits_append algebra_simps)
  have grows: "?y \<le> ?y * 10 ^ length ds + of_digits 10 ds"
    by (rule order_trans [of _ "?y * 10 ^ length ds"]) simp_all
  have d: "is_digit (digit_char d)" "digit_value (digit_char d) = d" using digit_chars [of d] snoc.prems(1) by simp_all
  show ?case
  proof (cases "?y \<le> duration_limit")
    case True
    then have "\<not> x > duration_limit div 10" by simp
    with True d snoc.IH [of ?y] snoc.prems(1) show ?thesis by (simp only: total) simp
  next
    case False
    with grows have "\<not> ?y * 10 ^ length ds + of_digits 10 ds \<le> duration_limit" by simp
    with False d show ?thesis by (simp only: total) simp
  qed
qed

lemma leading_int_decimal:
  assumes "u \<noteq> []" and "\<not> is_digit (hd u)"
  shows "leading_int (decimal n @ u) 0 = (if n \<le> duration_limit then Some (n, u) else None)"
proof (cases "n = 0")
  case True
  with assms show ?thesis using digit_chars [of 0] by (cases u) (auto simp: decimal_def)
next
  case False
  with leading_int_digits [OF assms, of "to_digits 10 n" 0] show ?thesis
    using to_digits_less [of _ 10 n] by (simp add: decimal_def)
qed

lemma decimal_hd: "decimal n \<noteq> []" "is_digit (hd (decimal n))"
proof -
  have "is_digit (hd (decimal n))" if "n \<noteq> 0"
  proof -
    have "to_digits 10 n \<noteq> []" using that by (simp add: to_digits_eq_Nil)
    then have "hd (decimal n) = digit_char (last (to_digits 10 n))" using that by (simp add: decimal_def hd_map hd_rev)
    moreover have "last (to_digits 10 n) < 10"
      using \<open>to_digits 10 n \<noteq> []\<close> by (intro to_digits_less [of _ 10 n] last_in_set)
    ultimately show ?thesis using digit_chars by simp
  qed
  then show "is_digit (hd (decimal n))" by (cases "n = 0") (simp_all add: decimal_def is_digit_def)
  show "decimal n \<noteq> []" by (simp add: decimal_def to_digits_eq_Nil)
qed

lemma unit_map_facts:
  assumes "unit_map u = Some k"
  shows "u \<noteq> [] \<and> 0 < k \<and> \<not> is_digit (hd u) \<and> hd u \<noteq> CHR ''.'' \<and> takeWhile unit_char u = u \<and> dropWhile unit_char u = []"
  using assms by (auto simp: unit_map_def is_digit_def unit_char_def split: if_splits)

lemma parse_decimal_unit:
  assumes "unit_map u = Some k"
  shows "ParseDuration frac (decimal n @ u) =
    (if n * k < 2 ^ 63 then Inr (int (n * k)) else Inl (Errorf (''time: invalid duration '' @ decimal n @ u)))"
proof -
  let ?s = "decimal n @ u"
  note u = unit_map_facts [OF assms]
  have hd: "is_digit (hd ?s)" "?s \<noteq> []" using decimal_hd [of n] by simp_all
  have two: "?s \<noteq> ''0''" using decimal_hd(1) [of n] u by (cases "decimal n"; cases u) auto
  have sign: "hd ?s \<noteq> CHR ''-''" "hd ?s \<noteq> CHR ''+''" using hd(1) by (auto simp: is_digit_def)
  have item: "duration_item frac ?s = (if n * k \<le> duration_limit then Some (n * k, []) else None)"
  proof (cases "n \<le> duration_limit")
    case True
    have "n > duration_limit div k \<longleftrightarrow> \<not> n * k \<le> duration_limit"
      using u by (simp add: div_less_iff_less_mult not_le)
    with True show ?thesis
      using leading_int_decimal [of u n] u hd assms decimal_hd(1) [of n]
      by (simp add: duration_item_def Let_def del: takeWhile_eq_all_conv dropWhile_eq_Nil_conv)
  next
    case False
    then have "\<not> n * k \<le> duration_limit" using u by (cases k) auto
    with False show ?thesis using leading_int_decimal [of u n] u by (simp add: duration_item_def)
  qed
  have "duration_items frac (length ?s) ?s 0 = (if n * k \<le> duration_limit then Some (n * k) else None)"
    using item hd(2) by (cases ?s) auto
  then show ?thesis using sign two hd(2) by (auto simp: ParseDuration_def Let_def)
qed

text \<open>
  C35. What the configuration is made of: with the database's address set, and each interval given, or by default
  60 and 30 seconds, as a decimal number and a unit, every field is its own environment variable, or its documented
  default when that is empty, and the two intervals are the numbers in nanoseconds; an interval that does not fit
  an \<open>int64\<close> is refused with an error that names its variable, the reconciliation's first.
\<close>

theorem config_reads_environment:
  assumes "getenv ''DATABASE_URL'' \<noteq> []"
    and "or_default (getenv ''GROUP_SYNC_RECONCILIATION_INTERVAL'') (decimal 60 @ ''s'') = decimal n @ u" and "unit_map u = Some k"
    and "or_default (getenv ''DEVICE_LIVENESS_INTERVAL'') (decimal 30 @ ''s'') = decimal m @ v" and "unit_map v = Some l"
  shows "FromEnv frac getenv =
    (if n * k \<ge> 2 ^ 63 then Inl (Wrap ''GROUP_SYNC_RECONCILIATION_INTERVAL''
       (Errorf (''time: invalid duration '' @ or_default (getenv ''GROUP_SYNC_RECONCILIATION_INTERVAL'') (decimal 60 @ ''s''))))
     else if m * l \<ge> 2 ^ 63 then Inl (Wrap ''DEVICE_LIVENESS_INTERVAL''
       (Errorf (''time: invalid duration '' @ or_default (getenv ''DEVICE_LIVENESS_INTERVAL'') (decimal 30 @ ''s''))))
     else Inr \<lparr>GRPCAddress = or_default (getenv ''GRPC_ADDRESS'') '':50051'', DatabaseURL = getenv ''DATABASE_URL'',
       AuthorizationAddress = or_default (getenv ''AUTHORIZATION_ADDRESS'') ''authorization:50051'',
       IdentityAddress = or_default (getenv ''IDENTITY_ADDRESS'') ''identity:50051'',
       ZitiManagementAddress = or_default (getenv ''ZITI_MANAGEMENT_ADDRESS'') ''ziti-management:50051'',
       GroupsAddress = or_default (getenv ''GROUPS_ADDRESS'') ''groups:50051'',
       NATSURL = or_default (getenv ''NATS_URL'') ''nats://nats:4222'',
       GroupSyncDurable = or_default (getenv ''GROUP_SYNC_DURABLE'') ''users-group-sync'',
       ReconciliationInterval = int (n * k), DeviceLivenessInterval = int (m * l)\<rparr>)"
proof -
  have defaults: "decimal 60 @ ''s'' = ''60s''" "decimal 30 @ ''s'' = ''30s''" by code_simp+
  note texts = assms(2,4) [unfolded defaults]
  show ?thesis
    using assms(1) unfolding FromEnv_def defaults texts parse_decimal_unit [OF assms(3)] parse_decimal_unit [OF assms(5)]
    by (simp add: not_le)
qed

text \<open>Five minutes, and a number of hours that is too large.\<close>

theorem config_reads_environment_witness:
  "(\<exists>cfg. FromEnv (\<lambda>f u sc. f * u div sc) (\<lambda>x. if x = ''DATABASE_URL'' then ''db'' else if x = ''DEVICE_LIVENESS_INTERVAL'' then ''5m'' else [])
      = Inr cfg \<and> DeviceLivenessInterval cfg = 300 * 10 ^ 9 \<and> ReconciliationInterval cfg = 60 * 10 ^ 9)
    \<and> FromEnv (\<lambda>f u sc. f * u div sc) (\<lambda>x. if x = ''DATABASE_URL'' then ''db'' else if x = ''DEVICE_LIVENESS_INTERVAL'' then ''2562048h'' else [])
      = Inl (Wrap ''DEVICE_LIVENESS_INTERVAL'' (Errorf ''time: invalid duration 2562048h''))"
proof -
  have texts: "decimal 60 @ ''s'' = ''60s''" "decimal 5 @ ''m'' = ''5m''" "decimal 2562048 @ ''h'' = ''2562048h''"
      "decimal 30 @ ''s'' = ''30s''"
    by (simp_all add: decimal_def to_digits_step digit_char_def)
  have units: "unit_map ''s'' = Some 1000000000" "unit_map ''m'' = Some 60000000000" "unit_map ''h'' = Some 3600000000000"
    by (simp_all add: unit_map_def)
  let ?env = "\<lambda>t x. if x = ''DATABASE_URL'' then ''db'' else if x = ''DEVICE_LIVENESS_INTERVAL'' then t else []"
  have "FromEnv (\<lambda>f u sc. f * u div sc) (?env ''5m'') = Inr \<lparr>GRPCAddress = '':50051'', DatabaseURL = ''db'',
      AuthorizationAddress = ''authorization:50051'', IdentityAddress = ''identity:50051'',
      ZitiManagementAddress = ''ziti-management:50051'', GroupsAddress = ''groups:50051'', NATSURL = ''nats://nats:4222'',
      GroupSyncDurable = ''users-group-sync'', ReconciliationInterval = int (60 * 1000000000),
      DeviceLivenessInterval = int (5 * 60000000000)\<rparr>"
    by (subst config_reads_environment [OF _ _ units(1) _ units(2), of _ 60 5]) (simp_all add: or_default_def texts)
  moreover have "FromEnv (\<lambda>f u sc. f * u div sc) (?env ''2562048h'') = Inl (Wrap ''DEVICE_LIVENESS_INTERVAL'' (Errorf ''time: invalid duration 2562048h''))"
    by (subst config_reads_environment [OF _ _ units(1) _ units(3), of _ 60 2562048]) (simp_all add: or_default_def texts)
  ultimately show ?thesis by simp
qed

text \<open>
  With only the database's address set, the service gets the documented defaults: every address, the
  durable consumer's name, one reconciliation a minute and one liveness poll every half minute.
\<close>

theorem config_defaults:
  "u \<noteq> [] \<Longrightarrow> FromEnv frac (\<lambda>v. if v = ''DATABASE_URL'' then u else []) =
    Inr \<lparr>GRPCAddress = '':50051'', DatabaseURL = u, AuthorizationAddress = ''authorization:50051'',
         IdentityAddress = ''identity:50051'', ZitiManagementAddress = ''ziti-management:50051'',
         GroupsAddress = ''groups:50051'', NATSURL = ''nats://nats:4222'', GroupSyncDurable = ''users-group-sync'',
         ReconciliationInterval = 60 * 10 ^ 9, DeviceLivenessInterval = 30 * 10 ^ 9\<rparr>"
proof -
  assume u: "u \<noteq> []"
  have "ParseDuration frac ''60s'' = Inr 60000000000" and "ParseDuration frac ''30s'' = Inr 30000000000"
    by (simp_all add: ParseDuration_def Let_def duration_item_def is_digit_def digit_value_def unit_char_def
        unit_map_def)
  then show ?thesis using u by (simp add: FromEnv_def or_default_def)
qed

theorem config_defaults_witness:
  "\<exists>cfg. FromEnv (\<lambda>f u sc. 0) (\<lambda>v. if v = ''DATABASE_URL'' then ''postgres://db'' else []) = Inr cfg
    \<and> ReconciliationInterval cfg = 60 * 10 ^ 9"
  by (subst config_defaults) simp_all

end
