(* ===== verification/Migrate.thy ===== *)
theory Migrate
  imports Environment
begin

text \<open>
  \<open>internal/db/migrate.go\<close>: applying the embedded migrations in one transaction. What a migration's
  SQL does to the schema, and where the connection fails, are arguments: \<open>run\<close> executes a
  file's text, \<open>fault\<close> says whether the connection fails at the next statement, and whether before or after the
  statement took effect. For a statement inside the transaction that makes no difference, since the
  transaction is rolled back; for the commit it does.
\<close>

record embedded_file =
  ef_name :: string
  ef_is_dir :: bool
  ef_content :: string

text \<open>
  What the transaction sees: the table \<open>schema_migrations\<close> (\<open>None\<close> before it exists), the schema, and
  the outside.
\<close>

record ('s, 'x) tx =
  tx_versions :: "string list option"
  tx_schema :: 's
  tx_out :: 'x

section \<open>Statements\<close>

text \<open>The error of a failed connection.\<close>

definition lost :: "fault \<Rightarrow> go_err option" where
  "lost f = (case f of NoFault \<Rightarrow> None | FaultBefore msg \<Rightarrow> Some (External msg) | FaultAfter msg \<Rightarrow> Some (External msg))"

definition tx_exec ::
  "('x \<Rightarrow> fault \<times> 'x) \<Rightarrow> (('s, 'x) tx \<Rightarrow> go_err + 'a \<times> ('s, 'x) tx) \<Rightarrow> (('s, 'x) tx, 'a) go" where
  "tx_exec fault stmt t =
    (case fault (tx_out t) of (f, x) \<Rightarrow>
      (case lost f of
         Some err \<Rightarrow> Some (Inl err, t\<lparr>tx_out := x\<rparr>)
       | None \<Rightarrow>
          (case stmt (t\<lparr>tx_out := x\<rparr>) of
             Inl err \<Rightarrow> Some (Inl err, t\<lparr>tx_out := x\<rparr>)
           | Inr (v, t') \<Rightarrow> Some (Inr v, t'))))"

definition sql_ensure_table :: "('s, 'x) tx \<Rightarrow> go_err + unit \<times> ('s, 'x) tx" where
  "sql_ensure_table t =
    Inr ((), t\<lparr>tx_versions := Some (case tx_versions t of None \<Rightarrow> [] | Some vs \<Rightarrow> vs)\<rparr>)"

definition sql_version_exists :: "string \<Rightarrow> ('s, 'x) tx \<Rightarrow> go_err + bool \<times> ('s, 'x) tx" where
  "sql_version_exists version t =
    (case tx_versions t of
       None \<Rightarrow> Inl (PgError ''42P01'' [])
     | Some vs \<Rightarrow> Inr (version \<in> set vs, t))"

definition sql_record_version :: "string \<Rightarrow> ('s, 'x) tx \<Rightarrow> go_err + unit \<times> ('s, 'x) tx" where
  "sql_record_version version t =
    (case tx_versions t of
       None \<Rightarrow> Inl (PgError ''42P01'' [])
     | Some vs \<Rightarrow>
        if version \<in> set vs then Inl (PgError ''23505'' ''schema_migrations_pkey'')
        else Inr ((), t\<lparr>tx_versions := Some (vs @ [version])\<rparr>))"

definition sql_run :: "(string \<Rightarrow> 's \<Rightarrow> go_err + 's) \<Rightarrow> string \<Rightarrow> ('s, 'x) tx \<Rightarrow> go_err + unit \<times> ('s, 'x) tx" where
  "sql_run run content t =
    (case run content (tx_schema t) of Inl err \<Rightarrow> Inl err | Inr s \<Rightarrow> Inr ((), t\<lparr>tx_schema := s\<rparr>))"

section \<open>ApplyMigrations\<close>

text \<open>The body of the loop for one directory entry.\<close>

definition apply_entry ::
  "('x \<Rightarrow> fault \<times> 'x) \<Rightarrow> (string \<Rightarrow> 's \<Rightarrow> go_err + 's) \<Rightarrow> embedded_file \<Rightarrow> (('s, 'x) tx, unit) go" where
  "apply_entry fault run entry =
    (if ef_is_dir entry then ret ()
     else
       let version = ef_name entry in
       call (tx_exec fault (sql_version_exists version)) (Wrap (''check migration '' @ version)) (\<lambda>applied.
       if applied then ret ()
       else
         call (tx_exec fault (sql_run run (ef_content entry))) (Wrap (''apply migration '' @ version)) (\<lambda>_.
         call (tx_exec fault (sql_record_version version)) (Wrap (''record migration '' @ version)) (\<lambda>_.
         ret ()))))"

definition migrations_tx ::
  "('x \<Rightarrow> fault \<times> 'x) \<Rightarrow> (string \<Rightarrow> 's \<Rightarrow> go_err + 's) \<Rightarrow> embedded_file list \<Rightarrow> (('s, 'x) tx, unit) go" where
  "migrations_tx fault run files =
    call (tx_exec fault sql_ensure_table) (Wrap ''ensure schema_migrations'') (\<lambda>_.
    each (apply_entry fault run) (sort_key ef_name files))"

text \<open>
  \<open>pgx.BeginFunc\<close>: what the transaction did is kept when its function and the commit succeed. A commit whose
  connection fails has taken effect or has not; the caller gets an error either way.
\<close>

definition begin_func :: "('x \<Rightarrow> fault \<times> 'x) \<Rightarrow> (('s, 'x) tx, unit) go \<Rightarrow> (('s, 'x) tx, unit) go" where
  "begin_func fault body t =
    (case fault (tx_out t) of (f, x) \<Rightarrow>
      (case lost f of
         Some err \<Rightarrow> Some (Inl err, t\<lparr>tx_out := x\<rparr>)
       | None \<Rightarrow>
          (case body (t\<lparr>tx_out := x\<rparr>) of
             None \<Rightarrow> None
           | Some (Inl err, t') \<Rightarrow> Some (Inl err, t\<lparr>tx_out := tx_out t'\<rparr>)
           | Some (Inr _, t') \<Rightarrow>
              (case fault (tx_out t') of
                 (NoFault, x') \<Rightarrow> Some (Inr (), t'\<lparr>tx_out := x'\<rparr>)
               | (FaultBefore msg, x') \<Rightarrow> Some (Inl (External msg), t\<lparr>tx_out := x'\<rparr>)
               | (FaultAfter msg, x') \<Rightarrow> Some (Inl (External msg), t'\<lparr>tx_out := x'\<rparr>)))))"

definition ApplyMigrations ::
  "('x \<Rightarrow> fault \<times> 'x) \<Rightarrow> (string \<Rightarrow> 's \<Rightarrow> go_err + 's) \<Rightarrow> embedded_file list \<Rightarrow> (('s, 'x) tx, unit) go" where
  "ApplyMigrations fault run files t =
    (case fault (tx_out t) of (f, x) \<Rightarrow>
      (case lost f of
         Some err \<Rightarrow> Some (Inl (Wrap ''acquire connection'' err), t\<lparr>tx_out := x\<rparr>)
       | None \<Rightarrow> begin_func fault (migrations_tx fault run files) (t\<lparr>tx_out := x\<rparr>)))"

section \<open>What a run does\<close>

text \<open>The files still to apply, in the order of their names, and their effect on the schema.\<close>

definition pending :: "string list \<Rightarrow> embedded_file list \<Rightarrow> embedded_file list" where
  "pending vs files = filter (\<lambda>f. \<not> ef_is_dir f \<and> ef_name f \<notin> set vs) files"

fun run_all :: "(string \<Rightarrow> 's \<Rightarrow> go_err + 's) \<Rightarrow> embedded_file list \<Rightarrow> 's \<Rightarrow> go_err + 's" where
  "run_all run [] s = Inr s"
| "run_all run (f # fs) s = (case run (ef_content f) s of Inl err \<Rightarrow> Inl err | Inr s' \<Rightarrow> run_all run fs s')"

definition applied_versions :: "('s, 'x) tx \<Rightarrow> string list" where
  "applied_versions t = (case tx_versions t of None \<Rightarrow> [] | Some vs \<Rightarrow> vs)"

lemma tx_exec_Inr:
  "tx_exec fault stmt t = Some (Inr v, t') \<longleftrightarrow> (\<exists>x. fault (tx_out t) = (NoFault, x) \<and> stmt (t\<lparr>tx_out := x\<rparr>) = Inr (v, t'))"
  by (auto simp: tx_exec_def lost_def split: prod.splits option.splits sum.splits fault.splits)

lemma tx_statements_Inr:
  "sql_version_exists v t = Inr (b, t') \<longleftrightarrow> (\<exists>vs. tx_versions t = Some vs \<and> b = (v \<in> set vs) \<and> t' = t)"
  "sql_record_version v t = Inr (u, t') \<longleftrightarrow>
    (\<exists>vs. tx_versions t = Some vs \<and> v \<notin> set vs \<and> t' = t\<lparr>tx_versions := Some (vs @ [v])\<rparr>)"
  "sql_run run content t = Inr (u, t') \<longleftrightarrow> (\<exists>s. run content (tx_schema t) = Inr s \<and> t' = t\<lparr>tx_schema := s\<rparr>)"
  by (auto simp: sql_version_exists_def sql_record_version_def sql_run_def split: option.splits sum.splits)

lemma apply_entry_Inr:
  assumes "apply_entry fault run f t = Some (Inr (), t')" and "tx_versions t = Some vs"
  shows "tx_versions t' = Some (vs @ map ef_name (pending vs [f]))
    \<and> run_all run (pending vs [f]) (tx_schema t) = Inr (tx_schema t')"
  using assms
  by (auto simp: apply_entry_def call_Inr_iff tx_exec_Inr tx_statements_Inr pending_def Let_def split: if_splits)

lemma pending_snoc:
  "ef_name f \<notin> set (map ef_name fs) \<Longrightarrow> pending (vs @ map ef_name (pending vs [f])) fs = pending vs fs"
  unfolding pending_def by (rule filter_cong) (auto, metis imageI)

lemma pending_Cons: "pending vs (f # fs) = pending vs [f] @ pending vs fs"
  by (simp add: pending_def)

lemma run_all_append:
  "run_all run (fs @ gs) s = (case run_all run fs s of Inl err \<Rightarrow> Inl err | Inr s' \<Rightarrow> run_all run gs s')"
  by (induction fs arbitrary: s) (auto split: sum.split)

lemma apply_entries_Inr:
  "each (apply_entry fault run) fs t = Some (Inr (), t') \<Longrightarrow> tx_versions t = Some vs
    \<Longrightarrow> distinct (map ef_name fs)
    \<Longrightarrow> tx_versions t' = Some (vs @ map ef_name (pending vs fs))
      \<and> run_all run (pending vs fs) (tx_schema t) = Inr (tx_schema t')"
proof (induction fs arbitrary: t vs)
  case Nil
  then show ?case by (simp add: pending_def)
next
  case (Cons f fs)
  obtain t1 where t1: "apply_entry fault run f t = Some (Inr (), t1)"
      and rest: "each (apply_entry fault run) fs t1 = Some (Inr (), t')"
    using Cons.prems(1) by (auto simp: call_Inr_iff)
  note step = apply_entry_Inr [OF t1 Cons.prems(2)]
  have "tx_versions t' = Some ((vs @ map ef_name (pending vs [f])) @ map ef_name (pending vs fs))
      \<and> run_all run (pending vs fs) (tx_schema t1) = Inr (tx_schema t')"
    using Cons.IH [OF rest conjunct1 [OF step]] Cons.prems(3) by (simp add: pending_snoc)
  with step show ?case
    unfolding pending_Cons [of vs f fs] run_all_append by simp
qed

lemma apply_migrations_cases:
  assumes "ApplyMigrations fault run files t = Some (r, t')"
  obtains (failed) err where "r = Inl err" "tx_versions t' = tx_versions t" "tx_schema t' = tx_schema t"
    | (committed) x t1 x' where "r = Inr ()" "migrations_tx fault run files (t\<lparr>tx_out := x\<rparr>) = Some (Inr (), t1)"
        "t' = t1\<lparr>tx_out := x'\<rparr>"
    | (unanswered) x t1 msg x' where "r = Inl (External msg)"
        "migrations_tx fault run files (t\<lparr>tx_out := x\<rparr>) = Some (Inr (), t1)"
        "fault (tx_out t1) = (FaultAfter msg, x')" "t' = t1\<lparr>tx_out := x'\<rparr>"
  using assms
  by (auto simp: ApplyMigrations_def begin_func_def split: prod.splits option.splits sum.splits fault.splits)

lemma migrations_committed:
  assumes names: "distinct (map ef_name files)"
    and run: "migrations_tx fault run files (t\<lparr>tx_out := x\<rparr>) = Some (Inr (), t1)"
  shows "let new = pending (applied_versions t) (sort_key ef_name files) in
    tx_versions t1 = Some (applied_versions t @ map ef_name new)
    \<and> run_all run new (tx_schema t) = Inr (tx_schema t1)"
proof -
  obtain y where rest: "each (apply_entry fault run) (sort_key ef_name files)
      (t\<lparr>tx_out := y, tx_versions := Some (applied_versions t)\<rparr>) = Some (Inr (), t1)"
    using run by (auto simp: migrations_tx_def call_Inr_iff tx_exec_Inr sql_ensure_table_def applied_versions_def)
  have "distinct (map ef_name (sort_key ef_name files))"
    using names by (metis distinct_map distinct_sort set_sort)
  from apply_entries_Inr [OF rest _ this] show ?thesis by (simp add: Let_def)
qed

lemma returns_tx_exec: "returns (tx_exec fault stmt)"
  by (auto simp: returns_def tx_exec_def split: option.splits sum.splits prod.splits)

lemma returns_migrations: "returns (ApplyMigrations fault run files)"
proof -
  have "returns (migrations_tx fault run files)"
    unfolding migrations_tx_def
    by (intro returns_call returns_each returns_tx_exec)
      (auto simp: apply_entry_def Let_def intro!: returns_call returns_tx_exec returns_ret)
  then have body: "migrations_tx fault run files t \<noteq> None" for t by (simp add: returns_def)
  have "begin_func fault (migrations_tx fault run files) t \<noteq> None" for t
    by (auto simp: begin_func_def body split: prod.split option.split sum.split fault.split)
  then show ?thesis
    by (simp add: returns_def ApplyMigrations_def split: option.split prod.split)
qed

text \<open>What a run of the migrations that went through has done.\<close>

definition migrated ::
  "(string \<Rightarrow> 's \<Rightarrow> go_err + 's) \<Rightarrow> embedded_file list \<Rightarrow> ('s, 'x) tx \<Rightarrow> ('s, 'x) tx \<Rightarrow> bool" where
  "migrated run files t t' \<longleftrightarrow>
    (let new = pending (applied_versions t) (sort_key ef_name files) in
      tx_versions t' = Some (applied_versions t @ map ef_name new)
      \<and> run_all run new (tx_schema t) = Inr (tx_schema t'))"

lemma migrated_out: "migrated run files t (t'\<lparr>tx_out := x\<rparr>) = migrated run files t t'"
  by (simp add: migrated_def)

text \<open>
  C34. Applying the migrations is all or nothing. A run that succeeds has run exactly the files not recorded
  before, each once, in the order of their names, and has recorded their names. A run that fails, at whatever
  statement, leaves the recorded versions and the schema as they were; only when the connection is lost
  after the commit took effect, a run that reports that error has done all of it.
\<close>

theorem migrations_atomic:
  assumes "distinct (map ef_name files)" and "ApplyMigrations fault run files t = Some (r, t')"
  shows "case r of
      Inl err \<Rightarrow> tx_versions t' = tx_versions t \<and> tx_schema t' = tx_schema t
        \<or> migrated run files t t' \<and> (\<exists>x msg. fault x = (FaultAfter msg, tx_out t') \<and> err = External msg)
    | Inr _ \<Rightarrow> migrated run files t t'"
  using assms(2)
proof (cases rule: apply_migrations_cases)
  case (committed x t1 x')
  then show ?thesis
    using migrations_committed [OF assms(1) committed(2)] by (simp add: migrated_out) (simp add: migrated_def)
next
  case (unanswered x t1 msg x')
  have "migrated run files t t1"
    using migrations_committed [OF assms(1) unanswered(2)] by (simp add: migrated_def)
  with unanswered show ?thesis by (auto simp: migrated_out)
qed simp

theorem migrations_atomic_witness:
  "\<exists>t'. ApplyMigrations (\<lambda>x. (NoFault, x)) (\<lambda>sql s. Inr (s @ [sql]))
      [\<lparr>ef_name = ''0002.sql'', ef_is_dir = False, ef_content = ''b''\<rparr>,
       \<lparr>ef_name = ''0001.sql'', ef_is_dir = False, ef_content = ''a''\<rparr>]
      \<lparr>tx_versions = Some [''0001.sql''], tx_schema = [''a''], tx_out = ()\<rparr> = Some (Inr (), t')
    \<and> tx_schema t' = [''a'', ''b''] \<and> tx_versions t' = Some [''0001.sql'', ''0002.sql'']"
proof -
  let ?run = "\<lambda>sql s. Inr (s @ [sql]) :: go_err + string list"
  let ?files = "[\<lparr>ef_name = ''0002.sql'', ef_is_dir = False, ef_content = ''b''\<rparr>,
       \<lparr>ef_name = ''0001.sql'', ef_is_dir = False, ef_content = ''a''\<rparr>]"
  let ?t = "\<lparr>tx_versions = Some [''0001.sql''], tx_schema = [''a''], tx_out = ()\<rparr>"
  have sorted: "sort_key ef_name ?files = rev ?files" by code_simp
  have "map_option fst (ApplyMigrations (\<lambda>x. (NoFault, x)) ?run ?files ?t) = Some (Inr ())" by code_simp
  then obtain t' where run: "ApplyMigrations (\<lambda>x. (NoFault, x)) ?run ?files ?t = Some (Inr (), t')"
    by (cases "ApplyMigrations (\<lambda>x. (NoFault, x)) ?run ?files ?t") auto
  have "distinct (map ef_name ?files)" by simp
  from migrations_atomic [OF this run] show ?thesis
    using run by (auto simp: sorted migrated_def Let_def pending_def applied_versions_def simp del: sort_key_simps)
qed

end
