(* ===== verification/Startup.thy ===== *)
theory Startup
  imports Background Config Migrate
begin

text \<open>
  \<open>cmd/users-service/main.go\<close>: how the process comes up and goes down. The libraries it calls (the pool,
  the gRPC clients, the listener, \<open>Serve\<close>) are the record \<open>runtime\<close>, on the outside the migrations' connection
  sees too. The state keeps what the process has acquired and not released, innermost first, and the history
  of what it did.
\<close>

section \<open>The process\<close>

datatype resource = Signals | Pool | Client string

datatype job = GroupMembershipConsumer string string | GroupRoleReconciliation duration | DeviceLivenessPolling duration

datatype action = Acquired resource | Released resource | Migrated | Started job | Serving string

record ('s, 'x) process =
  p_db :: "('s, 'x) tx"
  p_open :: "resource list"
  p_done :: "action list"

record 'x runtime =
  rt_parse_config :: "string \<Rightarrow> go_err + unit"
  rt_new_pool :: "string \<Rightarrow> 'x \<Rightarrow> (go_err + unit) \<times> 'x"
  rt_new_client :: "string \<Rightarrow> 'x \<Rightarrow> (go_err + unit) \<times> 'x"
  rt_listen :: "string \<Rightarrow> 'x \<Rightarrow> (go_err + unit) \<times> 'x"
  rt_serve :: "'x \<Rightarrow> (go_err + unit) \<times> 'x"

text \<open>The value \<open>grpc.ErrServerStopped\<close>, and \<open>errors.Is\<close> with it.\<close>

definition ErrServerStopped :: go_err where
  "ErrServerStopped = External ''grpc: the server has been stopped''"

fun is_server_stopped :: "go_err \<Rightarrow> bool" where
  "is_server_stopped (Wrap s err) = is_server_stopped err"
| "is_server_stopped err = (err = ErrServerStopped)"

section \<open>Steps\<close>

definition record_action :: "action \<Rightarrow> (('s, 'x) process, unit) go" where
  "record_action a p = Some (Inr (), p\<lparr>p_done := p_done p @ [a]\<rparr>)"

definition runtime_call :: "('x \<Rightarrow> (go_err + 'a) \<times> 'x) \<Rightarrow> (('s, 'x) process, 'a) go" where
  "runtime_call f p =
    (let (r, x) = f (tx_out (p_db p)) in Some (r, p\<lparr>p_db := (p_db p)\<lparr>tx_out := x\<rparr>\<rparr>))"

definition on_database :: "(('s, 'x) tx, 'a) go \<Rightarrow> (('s, 'x) process, 'a) go" where
  "on_database m p = map_option (\<lambda>(r, t). (r, p\<lparr>p_db := t\<rparr>)) (m (p_db p))"

text \<open>A resource that was acquired and whose release is deferred to the end of \<open>run\<close>.\<close>

definition acquired :: "resource \<Rightarrow> (('s, 'x) process, unit) go \<Rightarrow> (('s, 'x) process, unit) go" where
  "acquired r rest p =
    (case rest (p\<lparr>p_open := r # p_open p, p_done := p_done p @ [Acquired r]\<rparr>) of
       None \<Rightarrow> None
     | Some (result, p') \<Rightarrow> Some (result, p'\<lparr>p_open := remove1 r (p_open p'), p_done := p_done p' @ [Released r]\<rparr>))"

definition with_client :: "'x runtime \<Rightarrow> string \<Rightarrow> string \<Rightarrow> (('s, 'x) process, unit) go \<Rightarrow> (('s, 'x) process, unit) go" where
  "with_client R address what rest =
    call (runtime_call (rt_new_client R address)) (Wrap (''connect to '' @ what)) (\<lambda>_. acquired (Client address) rest)"

definition start_ticker :: "duration \<Rightarrow> job \<Rightarrow> (('s, 'x) process, unit) go" where
  "start_ticker interval j = (if starts_ticker interval then record_action (Started j) else ret ())"

text \<open>From the registration of the server on.\<close>

definition start_and_serve :: "'x runtime \<Rightarrow> config \<Rightarrow> (('s, 'x) process, unit) go" where
  "start_and_serve R cfg =
    call (record_action (Started (GroupMembershipConsumer (NATSURL cfg) (GroupSyncDurable cfg)))) id (\<lambda>_.
    call (let i = word_of_int (ReconciliationInterval cfg) in start_ticker i (GroupRoleReconciliation i)) id (\<lambda>_.
    call (let i = word_of_int (DeviceLivenessInterval cfg) in start_ticker i (DeviceLivenessPolling i)) id (\<lambda>_.
    call (runtime_call (rt_listen R (GRPCAddress cfg))) (Wrap (''listen on '' @ GRPCAddress cfg)) (\<lambda>_.
    call (record_action (Serving (GRPCAddress cfg))) id (\<lambda>_.
    attempt (runtime_call (rt_serve R)) (\<lambda>served.
    case served of
      Inl err \<Rightarrow> if is_server_stopped err then ret () else fail (Wrap ''serve'' err)
    | Inr _ \<Rightarrow> ret ()))))))"

section \<open>run and main\<close>

definition run_service ::
  "(nat \<Rightarrow> nat \<Rightarrow> nat \<Rightarrow> nat) \<Rightarrow> (string \<Rightarrow> string) \<Rightarrow> 'x runtime \<Rightarrow> ('x \<Rightarrow> fault \<times> 'x)
    \<Rightarrow> (string \<Rightarrow> 's \<Rightarrow> go_err + 's) \<Rightarrow> embedded_file list \<Rightarrow> (('s, 'x) process, unit) go" where
  "run_service frac getenv R fault sql files =
    acquired Signals (
    call (lift (FromEnv frac getenv)) id (\<lambda>cfg.
    call (lift (rt_parse_config R (DatabaseURL cfg))) (Wrap ''parse database url'') (\<lambda>_.
    call (runtime_call (rt_new_pool R (DatabaseURL cfg))) (Wrap ''create connection pool'') (\<lambda>_.
    acquired Pool (
    call (on_database (ApplyMigrations fault sql files)) (Wrap ''apply migrations'') (\<lambda>_.
    call (record_action Migrated) id (\<lambda>_.
    with_client R (AuthorizationAddress cfg) ''authorization'' (
    with_client R (IdentityAddress cfg) ''identity'' (
    with_client R (ZitiManagementAddress cfg) ''ziti management'' (
    with_client R (GroupsAddress cfg) ''groups'' (
    start_and_serve R cfg)))))))))))"

text \<open>The exit status of the process: \<open>log.Fatalf\<close> exits with 1.\<close>

definition main_service ::
  "(nat \<Rightarrow> nat \<Rightarrow> nat \<Rightarrow> nat) \<Rightarrow> (string \<Rightarrow> string) \<Rightarrow> 'x runtime \<Rightarrow> ('x \<Rightarrow> fault \<times> 'x)
    \<Rightarrow> (string \<Rightarrow> 's \<Rightarrow> go_err + 's) \<Rightarrow> embedded_file list \<Rightarrow> (('s, 'x) process, int) go" where
  "main_service frac getenv R fault sql files =
    attempt (run_service frac getenv R fault sql files) (\<lambda>result. case result of Inl err \<Rightarrow> ret 1 | Inr _ \<Rightarrow> ret 0)"

section \<open>An orderly life\<close>

text \<open>
  The contract: resources are released in the opposite order of their acquisition; the migrations run
  on the open pool, once; a background job or the server starts only after the migrations, while
  everything it uses is open.
\<close>

datatype phase = Starting | Ready | Up

fun follow :: "resource set \<Rightarrow> resource list \<times> phase \<Rightarrow> action list \<Rightarrow> (resource list \<times> phase) option" where
  "follow needed s [] = Some s"
| "follow needed (rs, ph) (Acquired r # as) = follow needed (r # rs, ph) as"
| "follow needed (rs, ph) (Released r # as) =
    (case rs of [] \<Rightarrow> None | r' # rest \<Rightarrow> if r = r' then follow needed (rest, ph) as else None)"
| "follow needed (rs, ph) (Migrated # as) =
    (if ph = Starting \<and> Pool \<in> set rs then follow needed (rs, Ready) as else None)"
| "follow needed (rs, ph) (Started j # as) =
    (if ph = Ready \<and> needed \<subseteq> set rs then follow needed (rs, ph) as else None)"
| "follow needed (rs, ph) (Serving a # as) =
    (if ph = Ready \<and> needed \<subseteq> set rs then follow needed (rs, Up) as else None)"

definition required :: "config \<Rightarrow> resource set" where
  "required cfg = {Signals, Pool, Client (AuthorizationAddress cfg), Client (IdentityAddress cfg),
    Client (ZitiManagementAddress cfg), Client (GroupsAddress cfg)}"

lemma follow_append:
  "follow needed s (as @ bs) = Option.bind (follow needed s as) (\<lambda>s'. follow needed s' bs)"
  by (induction needed s as rule: follow.induct) (auto split: list.split)

text \<open>
  Where a process is, and what its database holds there; \<open>loses\<close> says that the connection may be lost after a
  commit took effect.
\<close>

definition all_recorded :: "embedded_file list \<Rightarrow> ('s, 'x) tx \<Rightarrow> bool" where
  "all_recorded files t \<longleftrightarrow> (\<forall>f \<in> set files. \<not> ef_is_dir f \<longrightarrow> ef_name f \<in> set (applied_versions t))"

definition loses :: "('x \<Rightarrow> fault \<times> 'x) \<Rightarrow> bool" where
  "loses fault \<longleftrightarrow> (\<exists>x msg. fst (fault x) = FaultAfter msg)"

definition schema_at :: "bool \<Rightarrow> ('s, 'x) tx \<Rightarrow> embedded_file list \<Rightarrow> phase \<Rightarrow> ('s, 'x) tx \<Rightarrow> bool" where
  "schema_at lossy t files ph t' \<longleftrightarrow>
    (if ph = Starting then tx_versions t' = tx_versions t \<and> tx_schema t' = tx_schema t \<or> lossy \<and> all_recorded files t'
     else all_recorded files t')"

definition process_at :: "bool \<Rightarrow> resource set \<Rightarrow> ('s, 'x) tx \<Rightarrow> embedded_file list \<Rightarrow> phase \<Rightarrow> ('s, 'x) process \<Rightarrow> bool" where
  "process_at lossy needed t files ph p \<longleftrightarrow>
    follow needed ([], Starting) (p_done p) = Some (p_open p, ph) \<and> schema_at lossy t files ph (p_db p)"

text \<open>A part of \<open>run\<close> that is entered in a phase, with some resources open.\<close>

definition orderly ::
  "bool \<Rightarrow> resource set \<Rightarrow> ('s, 'x) tx \<Rightarrow> embedded_file list \<Rightarrow> phase \<Rightarrow> resource set \<Rightarrow> (('s, 'x) process, unit) go \<Rightarrow> bool" where
  "orderly lossy needed t files ph rs m \<longleftrightarrow>
    (\<forall>p. process_at lossy needed t files ph p \<longrightarrow> rs \<subseteq> set (p_open p) \<longrightarrow>
      (\<exists>result p' ph'. m p = Some (result, p') \<and> process_at lossy needed t files ph' p' \<and> p_open p' = p_open p
        \<and> (result = Inr () \<longrightarrow> ph' = Up)))"

named_theorems orderly_intro \<open>the parts of a start, one after the other\<close>

lemma orderlyD:
  assumes "orderly lossy needed t files ph rs m" and "process_at lossy needed t files ph p" and "rs \<subseteq> set (p_open p)"
  obtains result p' ph' where "m p = Some (result, p')" "process_at lossy needed t files ph' p'" "p_open p' = p_open p"
    "result = Inr () \<longrightarrow> ph' = Up"
  using assms unfolding orderly_def by blast

lemma orderly_fail [orderly_intro]: "orderly lossy needed t files ph rs (fail err)"
  by (auto simp: orderly_def)

lemma orderly_ret [orderly_intro]: "orderly lossy needed t files Up rs (ret ())"
  by (auto simp: orderly_def)

lemma schema_at_out: "schema_at lossy t files ph (t'\<lparr>tx_out := x\<rparr>) = schema_at lossy t files ph t'"
  by (simp add: schema_at_def all_recorded_def applied_versions_def)

lemma runtime_call_at:
  assumes "process_at lossy needed t files ph p"
  obtains r p' where "runtime_call f p = Some (r, p')" "process_at lossy needed t files ph p'" "p_open p' = p_open p"
proof -
  obtain r x where "f (tx_out (p_db p)) = (r, x)" by fastforce
  then show ?thesis
    using assms that [of r "p\<lparr>p_db := (p_db p)\<lparr>tx_out := x\<rparr>\<rparr>"]
    by (simp add: runtime_call_def process_at_def schema_at_out)
qed

lemma orderly_runtime [orderly_intro]:
  assumes "\<And>v. orderly lossy needed t files ph rs (k v)"
  shows "orderly lossy needed t files ph rs (call (runtime_call f) g k)"
  unfolding orderly_def
proof (intro allI impI)
  fix p
  assume p: "process_at lossy needed t files ph p" and rs: "rs \<subseteq> set (p_open p)"
  obtain r p1 where run: "runtime_call f p = Some (r, p1)" and p1: "process_at lossy needed t files ph p1" "p_open p1 = p_open p"
    using p by (rule runtime_call_at)
  show "\<exists>result p' ph'. call (runtime_call f) g k p = Some (result, p') \<and> process_at lossy needed t files ph' p'
      \<and> p_open p' = p_open p \<and> (result = Inr () \<longrightarrow> ph' = Up)"
  proof (cases r)
    case (Inl err)
    with run p1 show ?thesis by (auto simp: call_err)
  next
    case (Inr v)
    obtain result p' ph' where "k v p1 = Some (result, p')" "process_at lossy needed t files ph' p'" "p_open p' = p_open p1"
        "result = Inr () \<longrightarrow> ph' = Up"
      using orderlyD [OF assms p1(1), of v] rs p1(2) by auto
    with run Inr p1(2) show ?thesis by (auto simp: call_ok)
  qed
qed

lemma orderly_lift [orderly_intro]:
  assumes "\<And>v. r = Inr v \<Longrightarrow> orderly lossy needed t files ph rs (k v)"
  shows "orderly lossy needed t files ph rs (call (lift r) g k)"
  using assms by (cases r) (auto simp: orderly_def)

lemma orderly_acquired [orderly_intro]:
  assumes "orderly lossy needed t files ph (insert r rs) rest"
  shows "orderly lossy needed t files ph rs (acquired r rest)"
  unfolding orderly_def
proof (intro allI impI)
  fix p
  assume p: "process_at lossy needed t files ph p" and rs: "rs \<subseteq> set (p_open p)"
  let ?p = "p\<lparr>p_open := r # p_open p, p_done := p_done p @ [Acquired r]\<rparr>"
  have "process_at lossy needed t files ph ?p" using p by (simp add: process_at_def follow_append)
  from assms this obtain result p' ph' where "rest ?p = Some (result, p')" "process_at lossy needed t files ph' p'"
      "p_open p' = p_open ?p" "result = Inr () \<longrightarrow> ph' = Up"
    by (rule orderlyD) (use rs in auto)
  then show "\<exists>result p' ph'. acquired r rest p = Some (result, p') \<and> process_at lossy needed t files ph' p'
      \<and> p_open p' = p_open p \<and> (result = Inr () \<longrightarrow> ph' = Up)"
    by (auto simp: acquired_def process_at_def follow_append)
qed

lemma orderly_client [orderly_intro]:
  "orderly lossy needed t files ph (insert (Client address) rs) rest
    \<Longrightarrow> orderly lossy needed t files ph rs (with_client R address what rest)"
  unfolding with_client_def by (intro orderly_runtime orderly_acquired)

lemma orderly_action:
  assumes step: "\<And>rs'. rs \<subseteq> set rs' \<Longrightarrow> follow needed (rs', Ready) [a] = Some (rs', ph)"
    and "ph \<noteq> Starting" and rest: "orderly lossy needed t files ph rs (k ())"
  shows "orderly lossy needed t files Ready rs (call (record_action a) g k)"
  unfolding orderly_def
proof (intro allI impI)
  fix p
  assume p: "process_at lossy needed t files Ready p" and rs: "rs \<subseteq> set (p_open p)"
  let ?p = "p\<lparr>p_done := p_done p @ [a]\<rparr>"
  have "process_at lossy needed t files ph ?p"
    using p step [OF rs] assms(2) by (simp add: process_at_def follow_append schema_at_def)
  then show "\<exists>result p' ph'. call (record_action a) g k p = Some (result, p') \<and> process_at lossy needed t files ph' p'
      \<and> p_open p' = p_open p \<and> (result = Inr () \<longrightarrow> ph' = Up)"
    by (rule orderlyD [OF rest]) (use rs in \<open>auto simp: record_action_def call_ok\<close>)
qed

lemma orderly_started [orderly_intro]:
  "needed \<subseteq> rs \<Longrightarrow> orderly lossy needed t files Ready rs (k ())
    \<Longrightarrow> orderly lossy needed t files Ready rs (call (record_action (Started j)) g k)"
  by (rule orderly_action) auto

lemma orderly_ticker [orderly_intro]:
  "needed \<subseteq> rs \<Longrightarrow> orderly lossy needed t files Ready rs (k ())
    \<Longrightarrow> orderly lossy needed t files Ready rs (call (start_ticker i j) g k)"
proof -
  have "call (ret ()) g k = k ()" by (rule ext) simp
  then show "needed \<subseteq> rs \<Longrightarrow> orderly lossy needed t files Ready rs (k ()) \<Longrightarrow> ?thesis"
    by (simp add: start_ticker_def orderly_started)
qed

lemma orderly_serving [orderly_intro]:
  "needed \<subseteq> rs \<Longrightarrow> orderly lossy needed t files Up rs (k ())
    \<Longrightarrow> orderly lossy needed t files Ready rs (call (record_action (Serving a)) g k)"
  by (rule orderly_action) auto

text \<open>A failed run of the migrations changed nothing, or lost only the answer; after a successful one every file is recorded.\<close>

lemma committed_recorded:
  assumes "distinct (map ef_name files)" and "migrations_tx fault sql files (t\<lparr>tx_out := x\<rparr>) = Some (Inr (), t1)"
  shows "all_recorded files (t1\<lparr>tx_out := y\<rparr>)"
proof -
  have "applied_versions (t1\<lparr>tx_out := y\<rparr>)
      = applied_versions t @ map ef_name (pending (applied_versions t) (sort_key ef_name files))"
    using migrations_committed [OF assms] by (simp add: applied_versions_def Let_def)
  then show ?thesis by (auto simp: all_recorded_def pending_def)
qed

lemma migrations_schema:
  assumes "distinct (map ef_name files)" and "ApplyMigrations fault sql files t = Some (r, t')"
  shows "schema_at (loses fault) t files (case r of Inl _ \<Rightarrow> Starting | Inr _ \<Rightarrow> Ready) t'"
  using assms(2)
proof (cases rule: apply_migrations_cases)
  case (failed err)
  then show ?thesis by (simp add: schema_at_def)
next
  case (committed x t1 x')
  then show ?thesis using committed_recorded [OF assms(1) committed(2)] by (simp add: schema_at_def)
next
  case (unanswered x t1 msg x')
  then have "loses fault" unfolding loses_def by (metis fst_conv)
  with unanswered show ?thesis using committed_recorded [OF assms(1) unanswered(2)] by (simp add: schema_at_def)
qed

lemma schema_at_trans:
  "schema_at lossy t files Starting t1 \<Longrightarrow> schema_at lossy t1 files ph t2 \<Longrightarrow> schema_at lossy t files ph t2"
  by (auto simp: schema_at_def all_recorded_def applied_versions_def split: if_splits)

lemma orderly_migrations [orderly_intro]:
  assumes "distinct (map ef_name files)" and "Pool \<in> rs" and rest: "orderly (loses fault) needed t files Ready rs k"
  shows "orderly (loses fault) needed t files Starting rs
    (call (on_database (ApplyMigrations fault sql files)) g (\<lambda>_. call (record_action Migrated) id (\<lambda>_. k)))"
  unfolding orderly_def
proof (intro allI impI)
  fix p
  assume p: "process_at (loses fault) needed t files Starting p" and rs: "rs \<subseteq> set (p_open p)"
  obtain r t' where run: "ApplyMigrations fault sql files (p_db p) = Some (r, t')"
    using returnsD [OF returns_migrations] by metis
  have schema: "schema_at (loses fault) t files (case r of Inl _ \<Rightarrow> Starting | Inr _ \<Rightarrow> Ready) t'"
    using p migrations_schema [OF assms(1) run] unfolding process_at_def by (blast intro: schema_at_trans)
  show "\<exists>result p' ph'. call (on_database (ApplyMigrations fault sql files)) g
        (\<lambda>_. call (record_action Migrated) id (\<lambda>_. k)) p = Some (result, p')
      \<and> process_at (loses fault) needed t files ph' p' \<and> p_open p' = p_open p \<and> (result = Inr () \<longrightarrow> ph' = Up)"
  proof (cases r)
    case (Inl err)
    with run p schema show ?thesis
      by (intro exI [of _ "Inl (g err)"] exI [of _ "p\<lparr>p_db := t'\<rparr>"] exI [of _ Starting])
        (simp add: call_err on_database_def process_at_def)
  next
    case (Inr u)
    let ?p = "p\<lparr>p_db := t', p_done := p_done p @ [Migrated]\<rparr>"
    have "process_at (loses fault) needed t files Ready ?p"
      using p schema Inr rs assms(2) by (auto simp: process_at_def follow_append)
    with rest obtain result p' ph' where "k ?p = Some (result, p')" "process_at (loses fault) needed t files ph' p'"
        "p_open p' = p_open ?p" "result = Inr () \<longrightarrow> ph' = Up"
      by (rule orderlyD) (use rs in auto)
    with run Inr show ?thesis by (auto simp: call_ok on_database_def record_action_def)
  qed
qed

lemma orderly_start_and_serve:
  assumes "required cfg \<subseteq> rs"
  shows "orderly lossy (required cfg) t files Ready rs (start_and_serve R cfg)"
proof -
  have up: "orderly lossy (required cfg) t files Up rs (attempt (runtime_call (rt_serve R)) (\<lambda>served.
    case served of
      Inl err \<Rightarrow> if is_server_stopped err then ret () else fail (Wrap ''serve'' err)
    | Inr _ \<Rightarrow> ret ()))"
    unfolding orderly_def
  proof (intro allI impI)
    fix p
    assume p: "process_at lossy (required cfg) t files Up p"
    obtain r p1 where "runtime_call (rt_serve R) p = Some (r, p1)" "process_at lossy (required cfg) t files Up p1"
        "p_open p1 = p_open p"
      using p by (rule runtime_call_at)
    then show "\<exists>result p' ph'. attempt (runtime_call (rt_serve R)) (\<lambda>served.
        case served of
          Inl err \<Rightarrow> if is_server_stopped err then ret () else fail (Wrap ''serve'' err)
        | Inr _ \<Rightarrow> ret ()) p = Some (result, p') \<and> process_at lossy (required cfg) t files ph' p'
      \<and> p_open p' = p_open p \<and> (result = Inr () \<longrightarrow> ph' = Up)"
      by (cases r) (auto simp: attempt_run)
  qed
  show ?thesis
    unfolding start_and_serve_def Let_def by (intro orderly_intro up assms)
qed

lemma required_mem:
  "r \<in> required cfg \<longleftrightarrow> r \<in> {Signals, Pool, Client (AuthorizationAddress cfg), Client (IdentityAddress cfg),
    Client (ZitiManagementAddress cfg), Client (GroupsAddress cfg)}"
  by (simp add: required_def)

lemma orderly_run_service:
  assumes "distinct (map ef_name files)" and "FromEnv frac getenv = Inr cfg"
  shows "orderly (loses fault) (required cfg) t files Starting {} (run_service frac getenv R fault sql files)"
  unfolding run_service_def assms(2)
  by (intro orderly_intro assms(1)) (auto intro!: orderly_start_and_serve simp: required_mem)

lemma orderly_unconfigured:
  "FromEnv frac getenv = Inl err \<Longrightarrow> orderly (loses fault) {} t files Starting {} (run_service frac getenv R fault sql files)"
  unfolding run_service_def by (simp only:) (intro orderly_intro; simp)

text \<open>
  C30. However the process ends, and whatever fails on the way, \<open>run\<close> returns with everything released
  that it acquired, in the opposite order; no background job is started and no request served unless the
  migrations have succeeded and the pool, the signals and the four clients are open; a run that
  does not get so far leaves schema and recorded versions alone, unless a commit of the migrations took effect
  whose answer was lost, and after one that does every migration is recorded; and the exit status 0 is for a server that has served.
\<close>

theorem startup_orderly:
  assumes "distinct (map ef_name files)"
  shows "\<exists>status p' ph. main_service frac getenv R fault sql files \<lparr>p_db = t, p_open = [], p_done = []\<rparr> = Some (Inr status, p')
    \<and> p_open p' = []
    \<and> follow (case FromEnv frac getenv of Inl _ \<Rightarrow> {} | Inr cfg \<Rightarrow> required cfg) ([], Starting) (p_done p') = Some ([], ph)
    \<and> (if ph = Starting then tx_versions (p_db p') = tx_versions t \<and> tx_schema (p_db p') = tx_schema t
           \<or> loses fault \<and> all_recorded files (p_db p')
       else all_recorded files (p_db p'))
    \<and> status \<in> {0, 1} \<and> (status = 0 \<longrightarrow> ph = Up)"
proof -
  let ?needed = "case FromEnv frac getenv of Inl _ \<Rightarrow> {} | Inr cfg \<Rightarrow> required cfg"
  let ?p = "\<lparr>p_db = t, p_open = [], p_done = []\<rparr>"
  have "orderly (loses fault) ?needed t files Starting {} (run_service frac getenv R fault sql files)"
    by (cases "FromEnv frac getenv") (simp_all add: orderly_run_service [OF assms] orderly_unconfigured)
  moreover have "process_at (loses fault) ?needed t files Starting ?p" by (simp add: process_at_def schema_at_def)
  ultimately obtain result p' ph where "run_service frac getenv R fault sql files ?p = Some (result, p')"
      "process_at (loses fault) ?needed t files ph p'" "p_open p' = []" "result = Inr () \<longrightarrow> ph = Up"
    by (rule orderlyD) auto
  then show ?thesis
    by (cases result) (auto simp: main_service_def attempt_run process_at_def schema_at_def)
qed

text \<open>A runtime for the witness whose third client cannot be made.\<close>

definition demo_runtime :: "nat runtime" where
  "demo_runtime = \<lparr>
    rt_parse_config = (\<lambda>url. Inr ()),
    rt_new_pool = (\<lambda>url x. (Inr (), x)),
    rt_new_client = (\<lambda>address x. (if x = 2 then Inl (External ''refused'') else Inr (), x + 1)),
    rt_listen = (\<lambda>address x. (Inr (), x)),
    rt_serve = (\<lambda>x. (Inl ErrServerStopped, x))\<rparr>"

definition demo_vars :: "string \<Rightarrow> string" where
  "demo_vars name = (if name = ''DATABASE_URL'' then ''postgres://db'' else [])"

theorem startup_orderly_witness:
  "\<exists>ph p'. main_service (\<lambda>f u sc. 0) demo_vars demo_runtime (\<lambda>x. (NoFault, x)) (\<lambda>sql s. Inr (s @ [sql]))
      [\<lparr>ef_name = ''0001.sql'', ef_is_dir = False, ef_content = ''a''\<rparr>]
      \<lparr>p_db = \<lparr>tx_versions = None, tx_schema = [], tx_out = 0\<rparr>, p_open = [], p_done = []\<rparr> = Some (Inr 1, p')
    \<and> p_done p' = [Acquired Signals, Acquired Pool, Migrated, Acquired (Client ''authorization:50051''),
        Acquired (Client ''identity:50051''), Released (Client ''identity:50051''),
        Released (Client ''authorization:50051''), Released Pool, Released Signals]
    \<and> follow (case FromEnv (\<lambda>f u sc. 0) demo_vars of Inl _ \<Rightarrow> {} | Inr cfg \<Rightarrow> required cfg) ([], Starting) (p_done p') = Some ([], ph)"
proof -
  let ?files = "[\<lparr>ef_name = ''0001.sql'', ef_is_dir = False, ef_content = ''a''\<rparr>]"
  let ?main = "main_service (\<lambda>f u sc. 0) demo_vars demo_runtime (\<lambda>x. (NoFault, x)) (\<lambda>sql s. Inr (s @ [sql])) ?files
      \<lparr>p_db = \<lparr>tx_versions = None, tx_schema = [], tx_out = 0\<rparr>, p_open = [], p_done = []\<rparr>"
  have config: "FromEnv (\<lambda>f u sc. 0) demo_vars =
      Inr \<lparr>GRPCAddress = '':50051'', DatabaseURL = ''postgres://db'', AuthorizationAddress = ''authorization:50051'',
         IdentityAddress = ''identity:50051'', ZitiManagementAddress = ''ziti-management:50051'',
         GroupsAddress = ''groups:50051'', NATSURL = ''nats://nats:4222'', GroupSyncDurable = ''users-group-sync'',
         ReconciliationInterval = 60 * 10 ^ 9, DeviceLivenessInterval = 30 * 10 ^ 9\<rparr>"
    unfolding demo_vars_def by (rule config_defaults) simp
  have migrated: "ApplyMigrations (\<lambda>x. (NoFault, x)) (\<lambda>sql s. Inr (s @ [sql])) ?files
      \<lparr>tx_versions = None, tx_schema = [], tx_out = 0 :: nat\<rparr>
    = Some (Inr (), \<lparr>tx_versions = Some [''0001.sql''], tx_schema = [''a''], tx_out = 0\<rparr>)"
    by code_simp
  have "map_option (\<lambda>(r, p). (r, p_done p)) ?main = Some (Inr 1, [Acquired Signals, Acquired Pool, Migrated,
      Acquired (Client ''authorization:50051''), Acquired (Client ''identity:50051''),
      Released (Client ''identity:50051''), Released (Client ''authorization:50051''), Released Pool, Released Signals])"
    by (simp add: main_service_def run_service_def config acquired_def with_client_def call_def attempt_def
        runtime_call_def on_database_def record_action_def migrated demo_runtime_def)
  then obtain p' where run: "?main = Some (Inr 1, p')"
      and log: "p_done p' = [Acquired Signals, Acquired Pool, Migrated, Acquired (Client ''authorization:50051''),
        Acquired (Client ''identity:50051''), Released (Client ''identity:50051''),
        Released (Client ''authorization:50051''), Released Pool, Released Signals]"
    by auto
  have "distinct (map ef_name ?files)" by simp
  from startup_orderly [OF this, of "\<lambda>f u sc. 0" demo_vars demo_runtime "\<lambda>x. (NoFault, x)" "\<lambda>sql s. Inr (s @ [sql])"
      "\<lparr>tx_versions = None, tx_schema = [], tx_out = 0\<rparr>"]
  show ?thesis unfolding run using log by auto
qed

end
