(* ===== verification/Sha256_Vector.thy ===== *)
theory Sha256_Vector
  imports Sha256
begin

text \<open>The one-block example of FIPS 180-4, evaluated on the model of \<open>sha256.Sum256\<close>.\<close>

lemma sha256_abc:
  "hex_encode (sha256_sum ''abc'') = ''ba7816bf8f01cfea414140de5dae2223b00361a396177a9cb410ff61f20015ad''"
  by code_simp

end
