(* ===== verification/Spec2Isabelle.thy ===== *)
theory Spec2Isabelle
  imports Message_Facts Token_Facts Device_Facts Liveness_Facts Directory_Facts Role_Facts Failure_Facts Isolation Startup
    Sha256_Vector
begin

text \<open>
  The users service: a gRPC server in Go that keeps the users of a platform, their API tokens and their devices
  in PostgreSQL. It gives an identity to whoever signs in with an OpenID subject, answers who a token belongs
  to, keeps the cluster role of a user as a tuple of the Authorization service, and keeps the role attributes
  of a user's devices in OpenZiti equal to the groups the user is in. This development is a shallow embedding of
  the Go code under \<open>src/cmd\<close> and \<open>src/internal\<close>, of the parts of Go's library it uses, and of the
  PostgreSQL statements it issues, with the theorems that make it correct.

  The parts and how they interact. \<open>cmd/users-service/main.go\<close> reads the configuration, opens the pool,
  applies the migrations, makes the clients of four other services, starts three background jobs and serves. The
  handlers (\<open>internal/server/server.go\<close>) authenticate the caller from the request's metadata, ask the
  Authorization service about administrators, validate, call the store, and tell the Identity service, OpenZiti
  and the Authorization service what changed. The jobs are the membership consumer and the periodic
  reconciliation, which share \<open>group_sync.go\<close>, and the liveness poll. The store (\<open>internal/store\<close>) is the
  only part that touches the tables.

  How code becomes definitions. A Go call is a function from a state to \<open>None\<close> (it panics or does not return)
  or to a result and a state, a result being \<open>Inl err\<close> or \<open>Inr v\<close>: the type \<open>go\<close> of \<open>Go_Monad\<close>, with
  \<open>call\<close> for "if err != nil, return", \<open>attempt\<close> where the code goes on, and \<open>page_loop\<close>, \<open>each\<close> for its
  loops. The state of the service (\<open>world\<close>, in \<open>Environment\<close>) is the database and the outside. The record
  \<open>env\<close> holds everything that is not in the repository: the other services, uuid, protobuf time stamps, the
  clock, \<open>rand\<close>, the collation, and for every SQL statement what other sessions did to the tables before it and
  whether the connection fails before or after it. What the theorems need of these is named: \<open>quiet\<close> (nobody else
  writes and no statement fails), \<open>alone\<close> (nobody else writes, but any connection may fail before or after its
  statement took effect), \<open>lawful\<close> (other sessions keep an invariant), \<open>uuid_codec\<close>, \<open>groups_pages_end\<close>,
  \<open>groups_steady\<close> (nobody joins or leaves a group meanwhile), \<open>ziti_applies\<close>, \<open>ziti_tracks\<close>, \<open>authz_tracks\<close>,
  \<open>nats_tracks\<close>; each is shown to hold of a concrete outside
  (\<open>Demo_Env\<close> and the ends of the theories). \<open>int32\<close> and \<open>time.Duration\<close> are words that wrap, bytes are 8-bit
  words, strings are lists of bytes.

  The theories, and what each group of lemmas shows:
    \<^item> \<open>Prelude\<close>, \<open>Go_Strings\<close>, \<open>Go_Monad\<close>: lists, numerals in a base, decimal numbers, the parts of
      \<open>strings\<close> and \<open>unicode\<close> in use, errors, calls; the rules for "returns" and for a relation between the states
      before and after (the locale \<open>state_preorder\<close>, interpreted for every invariant and frame below).
    \<^item> \<open>Sha256\<close>, \<open>Sha256_Vector\<close>, \<open>Base64\<close>: the two codecs, with a test vector and a round trip.
    \<^item> \<open>Api_Token\<close> (\<open>internal/apitoken\<close>): generation, big-endian base 62; form and injectivity.
    \<^item> \<open>Username\<close> (\<open>username.go\<close>): validation, derivation, the candidates; every candidate is valid.
    \<^item> \<open>Database\<close> (\<open>migrations/*.sql\<close>), \<open>Sql_Text\<close>, \<open>Query_Helpers\<close>, \<open>Pagination\<close>, \<open>Store\<close>
      (\<open>internal/store\<close>): the three tables with their constraints, one function per statement, a reader and executor
      for the SQL text the code builds at run time, the update builder, page sizes and tokens, \<open>listEntities\<close>, and
      every method of \<open>Store\<close>. What the built text means is a theorem, not a definition.
    \<^item> \<open>Environment\<close>, \<open>Converter\<close>, \<open>Server\<close>, \<open>User_Handlers\<close>, \<open>Token_Handlers\<close>,
      \<open>Device_Handlers\<close> (\<open>converter.go\<close>, \<open>server.go\<close>): the outside, the conversions, the helpers and the 18 methods.
    \<^item> \<open>Group_Sync\<close>, \<open>Group_Consumer\<close>, \<open>Device_Liveness\<close>, \<open>Background\<close> (\<open>group_sync.go\<close>,
      \<open>group_consumer.go\<close>, \<open>device_liveness.go\<close>): events and the answers sent to messages, reconciliation, the consumer goroutine as a step relation and
      as the function that is shown to refine it, the tickers, the poll.
    \<^item> \<open>Config\<close>, \<open>Migrate\<close>, \<open>Startup\<close> (\<open>internal/config\<close>, \<open>internal/db\<close>, \<open>cmd/users-service\<close>): the
      environment variables with \<open>time.ParseDuration\<close>, the migrations' transaction, whose commit may take effect
      although the connection fails, and \<open>run\<close> with its deferred
      releases, checked against an automaton of what may happen in which order.
    \<^item> \<open>Access\<close>: every request ends; who is refused, and that nothing has happened then.
    \<^item> \<open>Service\<close>: the composition: steps of the service under requests, messages, jobs and other
      sessions; the validity of what is stored is an invariant of every reachable state. The locale
      \<open>store_invariant\<close> is what a store must promise for such an invariant; it is interpreted on the model's store for
      this one and for the constraints, which PostgreSQL keeps and other proofs use. The dispatch of a request to its
      handler (\<open>serve\<close>) is generated code; it only names the handlers.
    \<^item> \<open>User_Facts\<close>, \<open>Failure_Facts\<close>, \<open>User_Changes\<close>, \<open>Role_Facts\<close>: sign-in, what a failed sign-in or
      creation leaves behind, update, deletion and cluster roles.
    \<^item> \<open>Token_Facts\<close>, \<open>Device_Facts\<close>, \<open>Directory_Facts\<close>, \<open>Liveness_Facts\<close>: the life of a token and of a
      device, searching and listing, the poll.
    \<^item> \<open>Views\<close>, \<open>Sync_Facts\<close>, \<open>Message_Facts\<close>: which part of the outside decides what the synchronisation does
      and which part it leaves alone; that the role attributes in OpenZiti converge to the groups of the user, and that
      the order and the repetition of messages do not matter.
    \<^item> \<open>Isolation\<close>: a request touches nobody's rows but its caller's.

  Bounds and fuel. \<open>duration_items\<close> takes as many turns as the text has characters; every item takes at least one, so
  more fuel changes nothing (\<open>duration_items_fuel\<close>). \<open>try_usernames\<close> ends after at most 104 candidates
  (\<open>candidates_left\<close>). \<open>page_loop\<close> is a \<open>partial_function\<close>; that it ends is proved from a measure on the
  cursor: the ids above it, fewer than \<open>2^128\<close>, for the store's listings, and the hypothesis \<open>groups_pages_end\<close> for
  those of the Groups service. The base-62 loop divides a number below \<open>2^256\<close>, which needs at most 43 digits.

  Not modelled. \<open>migrations/embed.go\<close> is a directive; the files are an argument. The generated gRPC and protobuf code
  is not in the repository; its functions are fields of \<open>env\<close>. \<open>New\<close> and \<open>NewWithGroups\<close> only fill the struct that
  \<open>env\<close> stands for. Log output is left out. An error text made with \<open>%q\<close> or \<open>%v\<close> is kept as its fixed part
  and the wrapped error; no code reads such a text. Contexts are modelled by their metadata; that a call can be
  cancelled is one of the failures of the outside. A handler runs to its end before the next step of this process,
  but other sessions, such as another replica, can write between any two of its statements.
\<close>

end
